theory Spec2Isabelle
  imports Main "HOL-Library.AList"
begin

section \<open>Data model of \<open>flowcells/models.py\<close>\<close>

text \<open>
  Only the fields that the two checkers of \<open>FlowCell\<close> read are kept. A nullable column is an
  \<open>option\<close>; \<open>None\<close> is Python's \<open>None\<close>, and \<open>Some []\<close> is the empty string, which the
  columns \<open>barcode_seq\<close> and \<open>barcode_seq2\<close> (\<open>null=True, blank=True\<close>) can both hold.
  The primary key \<open>pk\<close> of a flow cell is what Django's \<open>Model.__hash__\<close> and
  \<open>Model.__eq__\<close> look at, hence the key under which \<open>functools.lru_cache\<close> files a call.
  \<open>sodar_uuid\<close> is declared \<open>unique=True\<close>; the theorems assume it where they need it.
\<close>

text \<open>Modelled from the spec: \<open>barcodes.models.BarcodeSetEntry\<close> is imported by
  \<open>flowcells/models.py\<close> and its declaration is not part of the sources; the spec calls it
  a shared entry that a reference resolves to a sequence.\<close>

record BarcodeSetEntry =
  sequence :: string

record Library =
  sodar_uuid :: nat
  name :: string
  barcode :: "BarcodeSetEntry option"
  barcode_seq :: "string option"
  barcode2 :: "BarcodeSetEntry option"
  barcode_seq2 :: "string option"
  lane_numbers :: "int list"

record LaneIndexHistogram =
  lane :: int
  index_read_no :: int
  histogram :: "(string \<times> int) list"

record FlowCell =
  pk :: nat
  num_lanes :: int
  libraries :: "Library list"
  index_histograms :: "LaneIndexHistogram list"

section \<open>Python dictionaries, in insertion order\<close>

text \<open>
  A \<open>dict\<close> is an association list with the keys in insertion order: \<open>map_of d k\<close> is
  \<open>d.get(k)\<close>, \<open>AList.update k v d\<close> is \<open>d[k] = v\<close> (in place when the key is there,
  appended otherwise), \<open>AList.map_entry k f d\<close> mutates the object stored under \<open>k\<close>,
  and the list itself is \<open>d.items()\<close>. The theorems below speak of lookups, of sets
  of lanes and of lists without repetition: none of them depends on the order in which
  a dictionary is walked.
\<close>

type_synonym ('k, 'v) dict = "('k \<times> 'v) list"

definition setdefault :: "'k \<Rightarrow> 'v \<Rightarrow> ('k, 'v) dict \<Rightarrow> ('k, 'v) dict" where
  "setdefault k v d = (case map_of d k of None \<Rightarrow> d @ [(k, v)] | Some _ \<Rightarrow> d)"

text \<open>\<open>d.setdefault(k, []).append(x)\<close>\<close>

definition setdefault_append :: "'k \<Rightarrow> 'a \<Rightarrow> ('k, 'a list) dict \<Rightarrow> ('k, 'a list) dict" where
  "setdefault_append k x d = AList.map_entry k (\<lambda>xs. xs @ [x]) (setdefault k [] d)"

text \<open>\<open>d.setdefault(k, {})[u] = x\<close>\<close>

definition setdefault_store :: "'k \<Rightarrow> 'u \<Rightarrow> 'a \<Rightarrow> ('k, ('u, 'a) dict) dict \<Rightarrow> ('k, ('u, 'a) dict) dict" where
  "setdefault_store k u x d = AList.map_entry k (AList.update u x) (setdefault k [] d)"

datatype error = KeyError

text \<open>A \<open>for\<close> loop whose body may raise: the first exception ends the loop.\<close>

fun for_each :: "('a \<Rightarrow> 's \<Rightarrow> error + 's) \<Rightarrow> 'a list \<Rightarrow> 's \<Rightarrow> error + 's" where
  "for_each body [] s = Inr s"
| "for_each body (x # xs) s = (case body x s of Inl e \<Rightarrow> Inl e | Inr s' \<Rightarrow> for_each body xs s')"

section \<open>Strings\<close>

text \<open>\<open>str\<close> of a Python integer, as \<open>str.format\<close> writes it.\<close>

definition digit_char :: "nat \<Rightarrow> char" where
  "digit_char d = ''0123456789'' ! d"

fun str_nat :: "nat \<Rightarrow> string" where
  "str_nat n = (if n < 10 then [digit_char n] else str_nat (n div 10) @ [digit_char (n mod 10)])"

declare str_nat.simps [simp del]

definition str_int :: "int \<Rightarrow> string" where
  "str_int i = (if i < 0 then CHR ''-'' # str_nat (nat (- i)) else str_nat (nat i))"

text \<open>Truth value of a nullable string: \<open>None\<close> and \<open>""\<close> are false.\<close>

fun truthy :: "string option \<Rightarrow> bool" where
  "truthy None = False"
| "truthy (Some s) = (s \<noteq> [])"

text \<open>\<open>x or "-"\<close>\<close>

fun or_dash :: "string option \<Rightarrow> string" where
  "or_dash None = ''-''"
| "or_dash (Some s) = (if s = [] then ''-'' else s)"

text \<open>
  \<open>re.match("^[a-zA-Z0-9_-]+$", name)\<close>. In Python, \<open>$\<close> without \<open>re.MULTILINE\<close> matches
  at the end of the string and also just before a newline that ends the string, so one
  trailing line feed is accepted after the run of class characters.
\<close>

definition name_char :: "char \<Rightarrow> bool" where
  "name_char c = (let n = of_char c :: nat in
     (97 \<le> n \<and> n \<le> 122) \<or> (65 \<le> n \<and> n \<le> 90) \<or> (48 \<le> n \<and> n \<le> 57) \<or> n = 95 \<or> n = 45)"

definition re_match_name :: "string \<Rightarrow> bool" where
  "re_match_name s =
     (let body = (if s \<noteq> [] \<and> last s = CHR 0x0A then butlast s else s)
      in body \<noteq> [] \<and> list_all name_char body)"

text \<open>Modelled from the spec: \<open>pretty_range\<close> returns \<open>pagerange.PageRange(value).range\<close>,
  and the package \<open>pagerange\<close> is not part of the sources. The checkers below take the
  formatter as a parameter, so what is proved of them holds for any formatter; this one
  follows the spec's words (a compact range, "2-4" for consecutive lanes and "2,4"
  otherwise) and serves the concrete instances.\<close>

fun ranges :: "int list \<Rightarrow> (int \<times> int) list" where
  "ranges [] = []"
| "ranges (x # xs) =
     (case ranges xs of
        [] \<Rightarrow> [(x, x)]
      | (a, b) # rs \<Rightarrow> if a = x + 1 then (x, b) # rs else (x, x) # (a, b) # rs)"

fun join_comma :: "string list \<Rightarrow> string" where
  "join_comma [] = []"
| "join_comma [s] = s"
| "join_comma (s # t # ss) = s @ '','' @ join_comma (t # ss)"

definition pretty_range :: "int list \<Rightarrow> string" where
  "pretty_range pages =
     join_comma (map (\<lambda>(a, b). if a = b then str_int a else str_int a @ ''-'' @ str_int b)
       (ranges (remdups_adj (sort pages))))"

section \<open>\<open>Library.get_barcode_seq\<close> and \<open>Library.get_barcode_seq2\<close>\<close>

definition get_barcode_seq :: "Library \<Rightarrow> string option" where
  "get_barcode_seq self =
     (case barcode self of Some b \<Rightarrow> Some (sequence b) | None \<Rightarrow> barcode_seq self)"

definition get_barcode_seq2 :: "Library \<Rightarrow> string option" where
  "get_barcode_seq2 self =
     (case barcode2 self of Some b \<Rightarrow> Some (sequence b) | None \<Rightarrow> barcode_seq2 self)"

section \<open>\<open>FlowCell.get_index_errors\<close>\<close>

type_synonym index_report = "(int \<times> int \<times> string, string list) dict"

definition index_error_msg :: "string \<Rightarrow> int \<Rightarrow> int \<Rightarrow> string" where
  "index_error_msg seq l r =
     ''found barcode '' @ seq @ '' on lane '' @ str_int l @ '' and index read '' @ str_int r
       @ '' in BCLs but not in sample sheet''"

text \<open>The first loop of the body: the sequences expected for one histogram.\<close>

definition expect_library :: "LaneIndexHistogram \<Rightarrow> Library \<Rightarrow> string set \<Rightarrow> string set" where
  "expect_library hist library expected_seqs =
     (let (bc, bc_seq) =
            (if index_read_no hist = 0 then (barcode library, barcode_seq library)
             else (barcode2 library, barcode_seq2 library))
      in case bc of
           Some b \<Rightarrow> insert (sequence b) expected_seqs
         | None \<Rightarrow> if truthy bc_seq then insert (the bc_seq) expected_seqs else expected_seqs)"

definition expected_seqs :: "FlowCell \<Rightarrow> LaneIndexHistogram \<Rightarrow> string set" where
  "expected_seqs self hist =
     fold (expect_library hist)
       (filter (\<lambda>library. lane hist \<in> set (lane_numbers library)) (libraries self)) {}"

text \<open>The second loop: one pass over \<open>hist.histogram.items()\<close>; the count is not read.\<close>

definition check_seq :: "LaneIndexHistogram \<Rightarrow> string set \<Rightarrow> string \<times> int \<Rightarrow> index_report \<Rightarrow> index_report" where
  "check_seq hist expected item res =
     (let seq = fst item in
      if list_all (\<lambda>s. s = CHR ''N'') seq then res
      else let errors = (if seq \<notin> expected
                         then [index_error_msg seq (lane hist) (index_read_no hist)] else [])
           in if errors \<noteq> [] then AList.update (lane hist, index_read_no hist, seq) errors res
              else res)"

definition check_hist :: "FlowCell \<Rightarrow> LaneIndexHistogram \<Rightarrow> index_report \<Rightarrow> index_report" where
  "check_hist self hist res = fold (check_seq hist (expected_seqs self hist)) (histogram hist) res"

definition get_index_errors :: "FlowCell \<Rightarrow> index_report" where
  "get_index_errors self = fold (check_hist self) (index_histograms self) []"

section \<open>\<open>FlowCell.get_sample_sheet_errors\<close>\<close>

type_synonym report = "(nat, (string, string list) dict) dict"

text \<open>\<open>result.setdefault(u, {}).setdefault(key, []).append(msg)\<close>\<close>

definition add_error :: "nat \<Rightarrow> string \<Rightarrow> string \<Rightarrow> report \<Rightarrow> report" where
  "add_error u key msg res = AList.map_entry u (setdefault_append key msg) (setdefault u [] res)"

text \<open>\<open>result.setdefault(u, {}).setdefault(key, msgs)\<close>\<close>

definition default_error :: "nat \<Rightarrow> string \<Rightarrow> string list \<Rightarrow> report \<Rightarrow> report" where
  "default_error u key msgs res = AList.map_entry u (setdefault key msgs) (setdefault u [] res)"

definition plural :: "'a list \<Rightarrow> string" where
  "plural xs = (if length xs > 1 then ''s'' else [])"

definition name_chars_msg :: string where
  "name_chars_msg =
     ''Library names may only contain alphanumeric characters, hyphens, and underscores''"

definition lane_msg :: "(int list \<Rightarrow> string) \<Rightarrow> int list \<Rightarrow> string" where
  "lane_msg fmt bad_lanes = ''Flow cell does not have lane'' @ plural bad_lanes @ '' #'' @ fmt bad_lanes"

definition name_msg :: "(int list \<Rightarrow> string) \<Rightarrow> Library \<Rightarrow> int list \<Rightarrow> string" where
  "name_msg fmt library lanes =
     ''Library name '' @ name library @ '' is not unique for lane'' @ plural lanes @ '' '' @ fmt lanes"

definition barcode_msg :: "(int list \<Rightarrow> string) \<Rightarrow> Library \<Rightarrow> int list \<Rightarrow> string" where
  "barcode_msg fmt library lanes =
     ''Barcode combination '' @ or_dash (get_barcode_seq library) @ ''/''
       @ or_dash (get_barcode_seq2 library) @ '' is not unique for lane'' @ plural lanes
       @ '' '' @ fmt lanes"

text \<open>The local variables that the first loop fills.\<close>

record sheet_state =
  result :: report
  by_uuid :: "(nat, Library) dict"
  by_name :: "(int \<times> string, Library list) dict"
  by_barcode :: "(int \<times> string option, (nat, Library) dict) dict"
  by_barcode2 :: "(int \<times> string option, (nat, Library) dict) dict"

definition init_state :: sheet_state where
  "init_state = \<lparr>result = [], by_uuid = [], by_name = [], by_barcode = [], by_barcode2 = []\<rparr>"

text \<open>Body of \<open>for lane in library.lane_numbers\<close>.\<close>

definition store_lane :: "Library \<Rightarrow> int \<Rightarrow> sheet_state \<Rightarrow> sheet_state" where
  "store_lane library l st = st
     \<lparr>by_name := setdefault_append (l, name library) library (by_name st),
      by_barcode :=
        setdefault_store (l, get_barcode_seq library) (sodar_uuid library) library (by_barcode st),
      by_barcode2 :=
        setdefault_store (l, get_barcode_seq2 library) (sodar_uuid library) library (by_barcode2 st)\<rparr>"

text \<open>Body of \<open>for library in self.libraries.all()\<close>.\<close>

definition gather :: "(int list \<Rightarrow> string) \<Rightarrow> int \<Rightarrow> Library \<Rightarrow> sheet_state \<Rightarrow> sheet_state" where
  "gather fmt n library st =
     (let st1 = st\<lparr>by_uuid := AList.update (sodar_uuid library) library (by_uuid st)\<rparr>;
          st2 = (if \<not> re_match_name (name library)
                 then st1\<lparr>result := add_error (sodar_uuid library) ''name'' name_chars_msg (result st1)\<rparr>
                 else st1);
          bad_lanes = sort (filter (\<lambda>no. no < 1 \<or> no > n) (lane_numbers library));
          st3 = (if bad_lanes \<noteq> []
                 then st2\<lparr>result := default_error (sodar_uuid library) ''lane''
                                      [lane_msg fmt bad_lanes] (result st2)\<rparr>
                 else st2)
      in fold (store_lane library) (lane_numbers library) st3)"

text \<open>Uniqueness of the name within a lane: the lanes to blame, per library.\<close>

definition name_clash :: "(int \<times> string) \<times> Library list \<Rightarrow> (nat, int list) dict \<Rightarrow> (nat, int list) dict" where
  "name_clash item bad_lanes =
     (let l = fst (fst item); libs = snd item in
      if length libs \<noteq> 1
      then fold (\<lambda>library. setdefault_append (sodar_uuid library) l) libs bad_lanes
      else bad_lanes)"

definition name_report :: "(int list \<Rightarrow> string) \<Rightarrow> (nat, Library) dict \<Rightarrow> nat \<times> int list \<Rightarrow> report \<Rightarrow> error + report" where
  "name_report fmt by_u item res =
     (case map_of by_u (fst item) of
        None \<Rightarrow> Inl KeyError
      | Some library \<Rightarrow> Inr (add_error (fst item) ''name'' (name_msg fmt library (snd item)) res))"

text \<open>Uniqueness of the barcode combination within a lane.\<close>

definition barcode_clash :: "(int \<times> string option, (nat, Library) dict) dict \<Rightarrow> int \<Rightarrow> (nat, Library) dict
    \<Rightarrow> nat \<times> Library \<Rightarrow> (nat, int list) dict \<Rightarrow> error + (nat, int list) dict" where
  "barcode_clash by_b2 l libs entry bad_lanes =
     (let library = snd entry in
      case map_of by_b2 (l, get_barcode_seq2 library) of
        None \<Rightarrow> Inl KeyError
      | Some other_libraries \<Rightarrow>
          let clashes = (set (map fst libs) \<inter> set (map fst other_libraries)) - {sodar_uuid library}
          in if clashes \<noteq> {} then Inr (setdefault_append (sodar_uuid library) l bad_lanes)
             else Inr bad_lanes)"

definition barcode_group :: "(int \<times> string option, (nat, Library) dict) dict
    \<Rightarrow> (int \<times> string option) \<times> (nat, Library) dict \<Rightarrow> (nat, int list) dict \<Rightarrow> error + (nat, int list) dict" where
  "barcode_group by_b2 item bad_lanes =
     for_each (barcode_clash by_b2 (fst (fst item)) (snd item)) (snd item) bad_lanes"

definition barcode_keys :: "Library \<Rightarrow> string list" where
  "barcode_keys library =
     (if \<not> truthy (get_barcode_seq library) \<and> \<not> truthy (get_barcode_seq2 library)
      then [''barcode'', ''barcode2'']
      else (if truthy (get_barcode_seq library) then [''barcode''] else [])
         @ (if truthy (get_barcode_seq2 library) then [''barcode2''] else []))"

definition barcode_report :: "(int list \<Rightarrow> string) \<Rightarrow> (nat, Library) dict \<Rightarrow> nat \<times> int list \<Rightarrow> report \<Rightarrow> error + report" where
  "barcode_report fmt by_u item res =
     (case map_of by_u (fst item) of
        None \<Rightarrow> Inl KeyError
      | Some library \<Rightarrow>
          Inr (fold (\<lambda>key. add_error (fst item) key (barcode_msg fmt library (snd item)))
                 (barcode_keys library) res))"

text \<open>The state after the first loop.\<close>

definition gather_all :: "(int list \<Rightarrow> string) \<Rightarrow> FlowCell \<Rightarrow> sheet_state" where
  "gather_all fmt self = fold (gather fmt (num_lanes self)) (libraries self) init_state"

definition get_sample_sheet_errors :: "(int list \<Rightarrow> string) \<Rightarrow> FlowCell \<Rightarrow> error + report" where
  "get_sample_sheet_errors fmt self =
     (let st = gather_all fmt self;
          bad_lanes = fold name_clash (by_name st) []
      in case for_each (name_report fmt (by_uuid st)) bad_lanes (result st) of
           Inl e \<Rightarrow> Inl e
         | Inr res1 \<Rightarrow>
             (case for_each (barcode_group (by_barcode2 st)) (by_barcode st) [] of
                Inl e \<Rightarrow> Inl e
              | Inr bad_lanes2 \<Rightarrow> for_each (barcode_report fmt (by_uuid st)) bad_lanes2 res1))"

text \<open>What a caller reads in a report: the messages of one library under one field.\<close>

definition errors_of :: "report \<Rightarrow> nat \<Rightarrow> string \<Rightarrow> string list" where
  "errors_of res u key =
     (case map_of res u of
        None \<Rightarrow> []
      | Some fs \<Rightarrow> (case map_of fs key of None \<Rightarrow> [] | Some msgs \<Rightarrow> msgs))"

section \<open>\<open>functools.lru_cache\<close>\<close>




section \<open>Notions of the specification\<close>

text \<open>The resolved sequence that an index read looks at: read 0 the first barcode, any
  other read the second.\<close>

definition resolved_for_read :: "int \<Rightarrow> Library \<Rightarrow> string option" where
  "resolved_for_read r l = (if r = 0 then get_barcode_seq l else get_barcode_seq2 l)"

text \<open>The sequences that the sample sheet declares for a lane and an index read.\<close>

definition sheet_seqs :: "FlowCell \<Rightarrow> int \<Rightarrow> int \<Rightarrow> string set" where
  "sheet_seqs fc l r =
     {s. \<exists>library \<in> set (libraries fc).
           l \<in> set (lane_numbers library) \<and> resolved_for_read r library = Some s}"

text \<open>A sequence is a key of a histogram of the lane and the index read.\<close>

definition observed :: "FlowCell \<Rightarrow> int \<Rightarrow> int \<Rightarrow> string \<Rightarrow> bool" where
  "observed fc l r s =
     (\<exists>h \<in> set (index_histograms fc).
        lane h = l \<and> index_read_no h = r \<and> s \<in> fst ` set (histogram h))"

definition all_N :: "string \<Rightarrow> bool" where
  "all_N s = list_all (\<lambda>c. c = CHR ''N'') s"

text \<open>Two histograms that differ at most in their counts.\<close>

definition same_observed :: "LaneIndexHistogram \<Rightarrow> LaneIndexHistogram \<Rightarrow> bool" where
  "same_observed h h' =
     (lane h = lane h' \<and> index_read_no h = index_read_no h'
        \<and> map fst (histogram h) = map fst (histogram h'))"

text \<open>Two libraries of a flow cell share a lane and a name.\<close>

definition name_collide :: "Library \<Rightarrow> Library \<Rightarrow> int \<Rightarrow> bool" where
  "name_collide a b l =
     (sodar_uuid b \<noteq> sodar_uuid a \<and> name b = name a
        \<and> l \<in> set (lane_numbers a) \<and> l \<in> set (lane_numbers b))"

text \<open>The lanes on which some other library of the flow cell has the name of \<open>a\<close>.\<close>

definition name_clash_lanes :: "FlowCell \<Rightarrow> Library \<Rightarrow> int set" where
  "name_clash_lanes fc a = {l. \<exists>b \<in> set (libraries fc). name_collide a b l}"

text \<open>Every (lane, name) pair of the sample sheet, one per lane entry of each library.\<close>

definition lane_name_pairs :: "FlowCell \<Rightarrow> (int \<times> string) list" where
  "lane_name_pairs fc =
     concat (map (\<lambda>b. map (\<lambda>l. (l, name b)) (lane_numbers b)) (libraries fc))"

text \<open>Two libraries share a lane and both resolved barcode sequences, compared as the values
  the code holds: \<open>None\<close> equals \<open>None\<close> only, and the empty string equals the empty
  string only.\<close>

definition barcode_collide :: "Library \<Rightarrow> Library \<Rightarrow> int \<Rightarrow> bool" where
  "barcode_collide a b l =
     (sodar_uuid b \<noteq> sodar_uuid a \<and> l \<in> set (lane_numbers a) \<and> l \<in> set (lane_numbers b)
        \<and> get_barcode_seq b = get_barcode_seq a \<and> get_barcode_seq2 b = get_barcode_seq2 a)"

text \<open>The lanes on which some other library of the flow cell has both barcodes of \<open>a\<close>.\<close>

definition barcode_clash_lanes :: "FlowCell \<Rightarrow> Library \<Rightarrow> int set" where
  "barcode_clash_lanes fc a = {l. \<exists>b \<in> set (libraries fc). barcode_collide a b l}"


section \<open>Auxiliary notions for the proofs\<close>

text \<open>\<open>d.get(k, [])\<close>\<close>

definition get_list :: "('k, 'a list) dict \<Rightarrow> 'k \<Rightarrow> 'a list" where
  "get_list d k = (case map_of d k of None \<Rightarrow> [] | Some xs \<Rightarrow> xs)"

text \<open>A run of \<open>setdefault(k, []).append(x)\<close> over a list of pairs, and a run of
  \<open>setdefault(k, {})[u] = x\<close> over a list of triples.\<close>

definition collect :: "('k \<times> 'a) list \<Rightarrow> ('k, 'a list) dict \<Rightarrow> ('k, 'a list) dict" where
  "collect ps d = fold (\<lambda>p. setdefault_append (fst p) (snd p)) ps d"

definition store_all :: "('k \<times> 'u \<times> 'a) list \<Rightarrow> ('k, ('u, 'a) dict) dict \<Rightarrow> ('k, ('u, 'a) dict) dict" where
  "store_all ps d = fold (\<lambda>p. setdefault_store (fst p) (fst (snd p)) (snd (snd p))) ps d"

text \<open>What one library adds to \<open>by_name\<close>, and to \<open>by_barcode\<close> or \<open>by_barcode2\<close>.\<close>

definition name_pairs :: "Library \<Rightarrow> ((int \<times> string) \<times> Library) list" where
  "name_pairs library = map (\<lambda>l. ((l, name library), library)) (lane_numbers library)"

definition barcode_triples :: "(Library \<Rightarrow> string option) \<Rightarrow> Library \<Rightarrow> ((int \<times> string option) \<times> nat \<times> Library) list" where
  "barcode_triples g library =
     map (\<lambda>l. ((l, g library), sodar_uuid library, library)) (lane_numbers library)"

text \<open>The invalid lanes of a library, as the first loop computes them, and what the first
  loop does to \<open>result\<close> for one library.\<close>

definition bad_lanes_of :: "int \<Rightarrow> Library \<Rightarrow> int list" where
  "bad_lanes_of n library = sort (filter (\<lambda>no. no < 1 \<or> no > n) (lane_numbers library))"

definition gather_result :: "(int list \<Rightarrow> string) \<Rightarrow> int \<Rightarrow> Library \<Rightarrow> report \<Rightarrow> report" where
  "gather_result fmt n library res =
     (let res1 = (if \<not> re_match_name (name library)
                  then add_error (sodar_uuid library) ''name'' name_chars_msg res else res)
      in if bad_lanes_of n library \<noteq> []
         then default_error (sodar_uuid library) ''lane'' [lane_msg fmt (bad_lanes_of n library)] res1
         else res1)"

text \<open>A field is present in the report of a library.\<close>

definition has_field :: "report \<Rightarrow> nat \<Rightarrow> string \<Rightarrow> bool" where
  "has_field res u key = (case map_of res u of None \<Rightarrow> False | Some fs \<Rightarrow> map_of fs key \<noteq> None)"

text \<open>The loop that fills \<open>by_uuid\<close>.\<close>

definition index_libraries :: "Library list \<Rightarrow> (nat, Library) dict \<Rightarrow> (nat, Library) dict" where
  "index_libraries libs d = fold (\<lambda>library. AList.update (sodar_uuid library) library) libs d"

text \<open>The pairs (UUID, lane) that the name loop and the barcode loop append, item by item.\<close>

definition name_clash_pairs :: "(int \<times> string) \<times> Library list \<Rightarrow> (nat \<times> int) list" where
  "name_clash_pairs item =
     (if length (snd item) \<noteq> 1 then map (\<lambda>library. (sodar_uuid library, fst (fst item))) (snd item)
      else [])"

definition clash_entry :: "(int \<times> string option, (nat, Library) dict) dict \<Rightarrow> int \<Rightarrow> (nat, Library) dict
    \<Rightarrow> nat \<times> Library \<Rightarrow> (nat \<times> int) list" where
  "clash_entry by_b2 l libs entry =
     (if (set (map fst libs) \<inter> set (map fst (get_list by_b2 (l, get_barcode_seq2 (snd entry)))))
           - {sodar_uuid (snd entry)} \<noteq> {}
      then [(sodar_uuid (snd entry), l)] else [])"

definition clash_pairs :: "(int \<times> string option, (nat, Library) dict) dict
    \<Rightarrow> (int \<times> string option) \<times> (nat, Library) dict \<Rightarrow> (nat \<times> int) list" where
  "clash_pairs by_b2 item = concat (map (clash_entry by_b2 (fst (fst item)) (snd item)) (snd item))"

text \<open>The two \<open>bad_lanes\<close> dictionaries of the method.\<close>

definition name_bad_lanes :: "(int list \<Rightarrow> string) \<Rightarrow> FlowCell \<Rightarrow> (nat, int list) dict" where
  "name_bad_lanes fmt fc = fold name_clash (by_name (gather_all fmt fc)) []"

definition barcode_bad_lanes :: "(int list \<Rightarrow> string) \<Rightarrow> FlowCell \<Rightarrow> (nat, int list) dict" where
  "barcode_bad_lanes fmt fc =
     collect (concat (map (clash_pairs (by_barcode2 (gather_all fmt fc)))
       (by_barcode (gather_all fmt fc)))) []"

text \<open>The messages that the two reporting loops add for one item of \<open>bad_lanes\<close>.\<close>

definition name_extra :: "(int list \<Rightarrow> string) \<Rightarrow> (nat, Library) dict \<Rightarrow> nat \<times> int list \<Rightarrow> string \<Rightarrow> string list" where
  "name_extra fmt by_u item key =
     (case map_of by_u (fst item) of
        None \<Rightarrow> []
      | Some l \<Rightarrow> if key = ''name'' then [name_msg fmt l (snd item)] else [])"

definition barcode_extra :: "(int list \<Rightarrow> string) \<Rightarrow> (nat, Library) dict \<Rightarrow> nat \<times> int list \<Rightarrow> string \<Rightarrow> string list" where
  "barcode_extra fmt by_u item key =
     (case map_of by_u (fst item) of
        None \<Rightarrow> []
      | Some l \<Rightarrow> if key \<in> set (barcode_keys l) then [barcode_msg fmt l (snd item)] else [])"

text \<open>A library with each barcode turned into the literal of its resolved sequence, and
  the dictionaries of the first loop with every library so turned.\<close>

definition resolve_library :: "Library \<Rightarrow> Library" where
  "resolve_library l =
     l\<lparr>barcode := None, barcode_seq := get_barcode_seq l,
       barcode2 := None, barcode_seq2 := get_barcode_seq2 l\<rparr>"

definition map_values :: "('a \<Rightarrow> 'b) \<Rightarrow> ('k, 'a) dict \<Rightarrow> ('k, 'b) dict" where
  "map_values f d = map (\<lambda>p. (fst p, f (snd p))) d"


section \<open>Concrete flow cells\<close>

definition lib :: "nat \<Rightarrow> string \<Rightarrow> string option \<Rightarrow> string option \<Rightarrow> int list \<Rightarrow> Library" where
  "lib u n b1 b2 ls =
     \<lparr>sodar_uuid = u, name = n, barcode = None, barcode_seq = b1,
      barcode2 = None, barcode_seq2 = b2, lane_numbers = ls\<rparr>"

definition cell :: "Library list \<Rightarrow> LaneIndexHistogram list \<Rightarrow> FlowCell" where
  "cell ls hs = \<lparr>pk = 1, num_lanes = 8, libraries = ls, index_histograms = hs\<rparr>"

text \<open>The histogram of the spec's example, and the same one with other counts.\<close>

definition hist_example :: "int \<Rightarrow> int \<Rightarrow> int \<Rightarrow> LaneIndexHistogram" where
  "hist_example a n t =
     \<lparr>lane = 1, index_read_no = 0,
      histogram = [(''AAAA'', a), (''NNNN'', n), (''TTTT'', t)]\<rparr>"

definition index_example :: FlowCell where
  "index_example = cell [lib 11 ''L1'' (Some ''AAAA'') None [1]] [hist_example 100 5 3]"

definition index_example' :: FlowCell where
  "index_example' = cell [lib 11 ''L1'' (Some ''AAAA'') None [1]] [hist_example 7 0 900]"

text \<open>A histogram of the second index read on lane 12.\<close>

definition index_example2 :: FlowCell where
  "index_example2 =
     cell [lib 11 ''L1'' (Some ''AA'') (Some ''GG'') [12]]
       [\<lparr>lane = 12, index_read_no = 1, histogram = [(''GG'', 5), (''CC'', 1)]\<rparr>]"








text \<open>A library whose name ends in a line feed.\<close>

definition newline_name :: FlowCell where
  "newline_name = cell [lib 11 (''abc'' @ [CHR 0x0A]) (Some ''ACGT'') None [1]] []"

text \<open>Two libraries on lane 3 with the same name and the same first barcode only.\<close>

definition same_name_cell :: FlowCell where
  "same_name_cell =
     cell [lib 11 ''Lib1'' (Some ''AAAA'') (Some ''CCCC'') [3],
           lib 12 ''Lib1'' (Some ''AAAA'') (Some ''GGGG'') [3]] []"



text \<open>Two libraries on lane 3, one without barcode sequences, one with empty ones.\<close>

definition unset_cell :: FlowCell where
  "unset_cell =
     cell [lib 11 ''LibA'' None None [3], lib 12 ''LibB'' (Some []) (Some []) [3]] []"

text \<open>A library whose name has a space.\<close>

definition bad_chars_cell :: FlowCell where
  "bad_chars_cell = cell [lib 11 ''a b'' (Some ''ACGT'') None [1]] []"

text \<open>A library on lanes 2 and 9 of a flow cell with 8 lanes.\<close>

definition lane_cell :: FlowCell where
  "lane_cell = cell [lib 11 ''L1'' (Some ''ACGT'') None [2, 9]] []"

text \<open>A library without lanes, with the name and the barcode of a library on lane 1.\<close>

definition no_lane_cell :: FlowCell where
  "no_lane_cell =
     cell [lib 11 ''L1'' (Some ''ACGT'') None [], lib 12 ''L1'' (Some ''ACGT'') None [1]] []"

section \<open>The index checker\<close>

lemma str_int_small [simp]: "str_int 0 = ''0''" "str_int 1 = ''1''"
  by (simp_all add: str_int_def str_nat.simps digit_char_def)

lemma str_int_decimal:
  "str_int i =
     (if i < 0 then CHR ''-'' # str_int (- i)
      else if i < 10 then [''0123456789'' ! nat i]
      else str_int (i div 10) @ [''0123456789'' ! nat (i mod 10)])"
proof -
  consider "i < 0" | "0 \<le> i" "i < 10" | "10 \<le> i" by linarith
  then show ?thesis
  proof cases
    case 1
    then show ?thesis by (simp add: str_int_def)
  next
    case 2
    then have "nat i < 10" by simp
    with 2 show ?thesis by (simp add: str_int_def str_nat.simps [of "nat i"] digit_char_def)
  next
    case 3
    then have "nat (i div 10) = nat i div 10" "nat (i mod 10) = nat i mod 10"
      by (simp_all add: nat_div_distrib nat_mod_distrib)
    moreover from 3 have "\<not> nat i < 10" "0 \<le> i div 10" by simp_all
    ultimately show ?thesis using 3
      by (simp add: str_int_def str_nat.simps [of "nat i"] digit_char_def)
  qed
qed

lemma expect_library_mem:
  "s \<noteq> [] \<Longrightarrow> s \<in> expect_library h l E \<longleftrightarrow> s \<in> E \<or> resolved_for_read (index_read_no h) l = Some s"
  by (cases "barcode l"; cases "barcode2 l"; cases "barcode_seq l"; cases "barcode_seq2 l")
     (auto simp: expect_library_def resolved_for_read_def get_barcode_seq_def get_barcode_seq2_def)

lemma fold_expect_mem:
  "s \<noteq> [] \<Longrightarrow> s \<in> fold (expect_library h) ls E \<longleftrightarrow>
     s \<in> E \<or> (\<exists>l \<in> set ls. resolved_for_read (index_read_no h) l = Some s)"
  by (induction ls arbitrary: E) (auto simp: expect_library_mem)

lemma expected_seqs_mem:
  "s \<noteq> [] \<Longrightarrow> s \<in> expected_seqs fc h \<longleftrightarrow> s \<in> sheet_seqs fc (lane h) (index_read_no h)"
  by (auto simp: expected_seqs_def sheet_seqs_def fold_expect_mem)

lemma all_N_Nil: "all_N []"
  by (simp add: all_N_def)

lemma map_of_check_seq:
  "map_of (check_seq h E item res) (l, r, s) =
     (if l = lane h \<and> r = index_read_no h \<and> s = fst item \<and> \<not> all_N s \<and> s \<notin> E
      then Some [index_error_msg s l r] else map_of res (l, r, s))"
  by (auto simp: check_seq_def all_N_def Let_def update_conv')

lemma map_of_fold_check_seq:
  "map_of (fold (check_seq h E) items res) (l, r, s) =
     (if l = lane h \<and> r = index_read_no h \<and> s \<in> fst ` set items \<and> \<not> all_N s \<and> s \<notin> E
      then Some [index_error_msg s l r] else map_of res (l, r, s))"
  by (induction items arbitrary: res) (auto simp: map_of_check_seq)

lemma map_of_check_hist:
  "map_of (check_hist fc h res) (l, r, s) =
     (if l = lane h \<and> r = index_read_no h \<and> s \<in> fst ` set (histogram h) \<and> \<not> all_N s
         \<and> s \<notin> sheet_seqs fc l r
      then Some [index_error_msg s l r] else map_of res (l, r, s))"
proof (cases "s = []")
  case True
  then show ?thesis by (simp add: check_hist_def map_of_fold_check_seq all_N_Nil)
next
  case False
  then show ?thesis by (auto simp: check_hist_def map_of_fold_check_seq expected_seqs_mem)
qed

lemma map_of_fold_check_hist:
  "map_of (fold (check_hist fc) hs res) (l, r, s) =
     (if (\<exists>h \<in> set hs. lane h = l \<and> index_read_no h = r \<and> s \<in> fst ` set (histogram h))
         \<and> \<not> all_N s \<and> s \<notin> sheet_seqs fc l r
      then Some [index_error_msg s l r] else map_of res (l, r, s))"
proof (induction hs arbitrary: res)
  case Nil
  then show ?case by simp
next
  case (Cons h hs)
  show ?case
    unfolding fold_simps Cons.IH map_of_check_hist by auto
qed

text \<open>
  C5. The index error report has the key (lane, index read, sequence) exactly when the
  sequence is a key of a histogram of that lane and read, is not made of \<open>N\<close> only (the
  empty sequence counts as made of \<open>N\<close> only, as Python's \<open>all\<close> does), and is not among
  the resolved sequences of the libraries on that lane: the first barcode for read 0, the
  second for any other read, a library without a resolved sequence giving nothing. The
  key then holds the single message "found barcode ... on lane ... and index read ... in
  BCLs but not in sample sheet", with the sequence, the lane and the index read of the key,
  the two numbers in decimal notation as the second conjunct spells it out.
\<close>

theorem index_report_keys:
  "map_of (get_index_errors fc) (l, r, s) =
     (if observed fc l r s \<and> \<not> all_N s \<and> s \<notin> sheet_seqs fc l r
      then Some [''found barcode '' @ s @ '' on lane '' @ str_int l @ '' and index read ''
                   @ str_int r @ '' in BCLs but not in sample sheet'']
      else None)
   \<and> str_int i =
     (if i < 0 then CHR ''-'' # str_int (- i)
      else if i < 10 then [''0123456789'' ! nat i]
      else str_int (i div 10) @ [''0123456789'' ! nat (i mod 10)])"
  using str_int_decimal [of i]
  by (auto simp: get_index_errors_def map_of_fold_check_hist observed_def index_error_msg_def)

theorem index_report_keys_witness:
  "map_of (get_index_errors index_example) (1, 0, ''TTTT'')
     = Some [''found barcode TTTT on lane 1 and index read 0 in BCLs but not in sample sheet'']
   \<and> map_of (get_index_errors index_example) (1, 0, ''NNNN'') = None
   \<and> map_of (get_index_errors index_example) (1, 0, ''AAAA'') = None
   \<and> map_of (get_index_errors index_example2) (12, 1, ''CC'')
     = Some [''found barcode CC on lane 12 and index read 1 in BCLs but not in sample sheet'']
   \<and> map_of (get_index_errors index_example2) (12, 1, ''GG'') = None
   \<and> str_int (- 120) = ''-120''"
proof -
  have s: "str_int 12 = ''12''" "str_int (- 120) = ''-120''"
    by (simp_all add: str_int_def str_nat.simps digit_char_def)
  show ?thesis
    using index_report_keys [of index_example 1 0 "''TTTT''" 0]
      index_report_keys [of index_example 1 0 "''NNNN''" 0]
      index_report_keys [of index_example 1 0 "''AAAA''" 0]
      index_report_keys [of index_example2 12 1 "''CC''" 0]
      index_report_keys [of index_example2 12 1 "''GG''" 0]
    by (simp add: index_example_def index_example2_def cell_def lib_def hist_example_def
        observed_def all_N_def sheet_seqs_def resolved_for_read_def get_barcode_seq_def
        get_barcode_seq2_def s)
qed

section \<open>Counts are not read\<close>

lemma check_seq_fst: "check_seq h E item res = check_seq h E (fst item, c) res"
  by (simp add: check_seq_def)

lemma fold_check_seq_keys:
  "fold (check_seq h E) items res = fold (\<lambda>s. check_seq h E (s, 0)) (map fst items) res"
proof (induction items arbitrary: res)
  case Nil
  show ?case by simp
next
  case (Cons item items)
  have "fold (check_seq h E) (item # items) res = fold (check_seq h E) items (check_seq h E item res)"
    by simp
  also have "\<dots> = fold (\<lambda>s. check_seq h E (s, 0)) (map fst items) (check_seq h E item res)"
    by (rule Cons.IH)
  also have "check_seq h E item res = check_seq h E (fst item, 0) res"
    by (rule check_seq_fst)
  finally show ?case by simp
qed

lemma check_seq_same:
  assumes "lane h = lane h'" "index_read_no h = index_read_no h'"
  shows "check_seq h E = check_seq h' E"
  unfolding check_seq_def assms ..

lemma expect_library_same:
  assumes "index_read_no h = index_read_no h'"
  shows "expect_library h = expect_library h'"
  unfolding expect_library_def assms ..

lemma expected_seqs_same:
  assumes "libraries fc = libraries fc'" "lane h = lane h'" "index_read_no h = index_read_no h'"
  shows "expected_seqs fc h = expected_seqs fc' h'"
  unfolding expected_seqs_def assms(1,2) expect_library_same [OF assms(3)] ..

lemma check_hist_same:
  assumes "libraries fc = libraries fc'" "same_observed h h'"
  shows "check_hist fc h res = check_hist fc' h' res"
proof -
  from assms(2) have l: "lane h = lane h'" and r: "index_read_no h = index_read_no h'"
    and k: "map fst (histogram h) = map fst (histogram h')"
    unfolding same_observed_def by blast+
  show ?thesis
    unfolding check_hist_def fold_check_seq_keys k
      expected_seqs_same [OF assms(1) l r] check_seq_same [OF l r] ..
qed

lemma fold_check_hist_same:
  "libraries fc = libraries fc' \<Longrightarrow> list_all2 same_observed hs hs' \<Longrightarrow>
   fold (check_hist fc) hs res = fold (check_hist fc') hs' res"
proof (induction hs arbitrary: hs' res)
  case Nil
  then show ?case by simp
next
  case (Cons h hs)
  from Cons.prems(2) obtain h' hs'' where
    hs': "hs' = h' # hs''" and h: "same_observed h h'" and t: "list_all2 same_observed hs hs''"
    by (auto simp: list_all2_Cons1)
  have "fold (check_hist fc) (h # hs) res = fold (check_hist fc) hs (check_hist fc' h' res)"
    by (simp add: check_hist_same [OF Cons.prems(1) h])
  also have "\<dots> = fold (check_hist fc') hs'' (check_hist fc' h' res)"
    by (rule Cons.IH [OF Cons.prems(1) t])
  finally show ?case by (simp add: hs')
qed

text \<open>
  C6. Two flow cells with the same libraries, whose histograms agree one by one on the
  lane, the index read and the observed sequences and differ at most in the counts,
  get the same index error report.
\<close>

theorem index_errors_ignore_counts:
  assumes "libraries fc = libraries fc'"
    and "list_all2 same_observed (index_histograms fc) (index_histograms fc')"
  shows "get_index_errors fc = get_index_errors fc'"
  unfolding get_index_errors_def by (rule fold_check_hist_same [OF assms])

theorem index_errors_ignore_counts_witness:
  "libraries index_example = libraries index_example'
   \<and> list_all2 same_observed (index_histograms index_example) (index_histograms index_example')
   \<and> get_index_errors index_example = get_index_errors index_example'"
proof -
  have a: "libraries index_example = libraries index_example'"
    by (simp add: index_example_def index_example'_def cell_def)
  have b: "list_all2 same_observed (index_histograms index_example) (index_histograms index_example')"
    by (simp add: index_example_def index_example'_def cell_def same_observed_def hist_example_def)
  from a b index_errors_ignore_counts [OF a b] show ?thesis by simp
qed

section \<open>Characters of a library name\<close>

text \<open>
  C10. A library whose name is empty or has a character other than an ASCII letter, a
  digit, a hyphen or an underscore should get the error "Library names may only contain
  alphanumeric characters, hyphens, and underscores" under the field \<open>name\<close>. The
  name \<open>abc\<close> followed by a line feed has such a character, and the checker reports
  nothing for it: \<open>$\<close> in the pattern also matches before a final line feed.
\<close>

theorem newline_name_accepted:
  "name (hd (libraries newline_name)) = ''abc'' @ [CHR 0x0A]
   \<and> \<not> name_char (CHR 0x0A)
   \<and> get_sample_sheet_errors pretty_range newline_name = Inr []"
  by code_simp

section \<open>Facts about dictionaries\<close>

lemma map_of_setdefault:
  "map_of (setdefault k v d) k' = (if k' = k \<and> map_of d k = None then Some v else map_of d k')"
  by (auto simp: setdefault_def map_add_def split: option.splits)

lemma keys_setdefault: "fst ` set (setdefault k v d) = insert k (fst ` set d)"
  by (auto simp: setdefault_def split: option.splits dest: map_of_SomeD intro: rev_image_eqI)

lemma map_of_None_keys: "map_of d k = None \<longleftrightarrow> k \<notin> fst ` set d"
  by (simp add: map_of_eq_None_iff)

lemma distinct_setdefault: "distinct (map fst d) \<Longrightarrow> distinct (map fst (setdefault k v d))"
  by (auto simp: setdefault_def map_of_eq_None_iff split: option.splits)

lemma map_of_setdefault_append:
  "map_of (setdefault_append k x d) k' =
     (if k' = k then Some (get_list d k @ [x]) else map_of d k')"
  by (auto simp: setdefault_append_def map_of_map_entry map_of_setdefault get_list_def
      split: option.splits)

lemma get_list_setdefault_append:
  "get_list (setdefault_append k x d) k' = get_list d k' @ (if k' = k then [x] else [])"
  by (simp add: get_list_def map_of_setdefault_append)

lemma keys_setdefault_append: "fst ` set (setdefault_append k x d) = insert k (fst ` set d)"
  by (simp add: setdefault_append_def dom_map_entry keys_setdefault)

lemma distinct_setdefault_append:
  "distinct (map fst d) \<Longrightarrow> distinct (map fst (setdefault_append k x d))"
  by (simp add: setdefault_append_def distinct_map_entry distinct_setdefault)

lemma map_of_setdefault_store:
  "map_of (setdefault_store k u x d) k' =
     (if k' = k then Some (AList.update u x (get_list d k)) else map_of d k')"
  by (auto simp: setdefault_store_def map_of_map_entry map_of_setdefault get_list_def
      split: option.splits)

lemma get_list_setdefault_store:
  "get_list (setdefault_store k u x d) k' =
     (if k' = k then AList.update u x (get_list d k) else get_list d k')"
  by (simp add: get_list_def map_of_setdefault_store)

lemma keys_setdefault_store: "fst ` set (setdefault_store k u x d) = insert k (fst ` set d)"
  by (simp add: setdefault_store_def dom_map_entry keys_setdefault)

lemma distinct_setdefault_store:
  "distinct (map fst d) \<Longrightarrow> distinct (map fst (setdefault_store k u x d))"
  by (simp add: setdefault_store_def distinct_map_entry distinct_setdefault)

lemma collect_Nil [simp]: "collect [] d = d"
  by (simp add: collect_def)

lemma collect_Cons [simp]: "collect (p # ps) d = collect ps (setdefault_append (fst p) (snd p) d)"
  by (simp add: collect_def)

lemma collect_append: "collect (ps @ qs) d = collect qs (collect ps d)"
  by (simp add: collect_def)

lemma fold_collect_concat: "fold (\<lambda>x. collect (f x)) xs d = collect (concat (map f xs)) d"
  by (induction xs arbitrary: d) (simp_all add: collect_append)

lemma get_list_collect:
  "get_list (collect ps d) k = get_list d k @ map snd (filter (\<lambda>p. fst p = k) ps)"
  by (induction ps arbitrary: d) (auto simp: get_list_setdefault_append)

lemma keys_collect: "fst ` set (collect ps d) = fst ` set d \<union> fst ` set ps"
  by (induction ps arbitrary: d) (auto simp: keys_setdefault_append)

lemma distinct_collect: "distinct (map fst d) \<Longrightarrow> distinct (map fst (collect ps d))"
  by (induction ps arbitrary: d) (auto simp: distinct_setdefault_append)

lemma map_of_get_list: "map_of d k = Some xs \<Longrightarrow> get_list d k = xs"
  by (simp add: get_list_def)

lemma item_get_list: "distinct (map fst d) \<Longrightarrow> (k, xs) \<in> set d \<Longrightarrow> get_list d k = xs"
  by (simp add: get_list_def)

lemma store_all_Nil [simp]: "store_all [] d = d"
  by (simp add: store_all_def)

lemma store_all_Cons [simp]:
  "store_all (p # ps) d = store_all ps (setdefault_store (fst p) (fst (snd p)) (snd (snd p)) d)"
  by (simp add: store_all_def)

lemma store_all_append: "store_all (ps @ qs) d = store_all qs (store_all ps d)"
  by (simp add: store_all_def)

lemma fold_store_all_concat: "fold (\<lambda>x. store_all (f x)) xs d = store_all (concat (map f xs)) d"
  by (induction xs arbitrary: d) (simp_all add: store_all_append)

lemma keys_store_all: "fst ` set (store_all ps d) = fst ` set d \<union> fst ` set ps"
  by (induction ps arbitrary: d) (auto simp: keys_setdefault_store)

lemma distinct_store_all: "distinct (map fst d) \<Longrightarrow> distinct (map fst (store_all ps d))"
  by (induction ps arbitrary: d) (auto simp: distinct_setdefault_store)

lemma inner_keys_store_all:
  "fst ` set (get_list (store_all ps d) k) =
     fst ` set (get_list d k) \<union> {u. \<exists>x. (k, u, x) \<in> set ps}"
proof (induction ps arbitrary: d)
  case Nil
  show ?case by simp
next
  case (Cons p ps)
  obtain k' u x where p: "p = (k', u, x)" by (cases p)
  show ?case
    unfolding store_all_Cons Cons.IH p
    by (auto simp: get_list_setdefault_store dom_update)
qed

lemma inner_distinct_store_all:
  "distinct (map fst (get_list d k)) \<Longrightarrow> distinct (map fst (get_list (store_all ps d) k))"
proof (induction ps arbitrary: d)
  case Nil
  then show ?case by simp
next
  case (Cons p ps)
  have "distinct (map fst (get_list (setdefault_store (fst p) (fst (snd p)) (snd (snd p)) d) k))"
    using Cons.prems by (auto simp: get_list_setdefault_store intro: distinct_update)
  then show ?case unfolding store_all_Cons by (rule Cons.IH)
qed

lemma set_update_subset: "set (AList.update u x al) \<subseteq> insert (u, x) (set al)"
  by (induction al) auto

lemma inner_entries_store_all:
  "(u, x) \<in> set (get_list (store_all ps d) k) \<Longrightarrow>
     (u, x) \<in> set (get_list d k) \<or> (k, u, x) \<in> set ps"
proof (induction ps arbitrary: d)
  case Nil
  then show ?case by simp
next
  case (Cons p ps)
  obtain k' u' x' where p: "p = (k', u', x')" by (cases p)
  from Cons.prems have
    "(u, x) \<in> set (get_list (setdefault_store k' u' x' d) k) \<or> (k, u, x) \<in> set ps"
    unfolding store_all_Cons p by (auto dest: Cons.IH)
  then show ?case
    using set_update_subset [of u' x' "get_list d k"]
    by (auto simp: p get_list_setdefault_store split: if_splits)
qed

section \<open>The first loop\<close>

lemma fold_store_lane:
  "fold (store_lane library) ls st = st
     \<lparr>by_name := collect (map (\<lambda>l. ((l, name library), library)) ls) (by_name st),
      by_barcode := store_all
        (map (\<lambda>l. ((l, get_barcode_seq library), sodar_uuid library, library)) ls) (by_barcode st),
      by_barcode2 := store_all
        (map (\<lambda>l. ((l, get_barcode_seq2 library), sodar_uuid library, library)) ls) (by_barcode2 st)\<rparr>"
  by (induction ls arbitrary: st) (simp_all add: store_lane_def)

lemma gather_fields:
  "by_name (gather fmt n library st) = collect (name_pairs library) (by_name st)"
  "by_barcode (gather fmt n library st) =
     store_all (barcode_triples get_barcode_seq library) (by_barcode st)"
  "by_barcode2 (gather fmt n library st) =
     store_all (barcode_triples get_barcode_seq2 library) (by_barcode2 st)"
  "by_uuid (gather fmt n library st) = AList.update (sodar_uuid library) library (by_uuid st)"
  "result (gather fmt n library st) = gather_result fmt n library (result st)"
  by (simp_all add: gather_def fold_store_lane Let_def name_pairs_def barcode_triples_def
      gather_result_def bad_lanes_of_def)

lemma fold_gather_fields:
  "by_name (fold (gather fmt n) libs st) = collect (concat (map name_pairs libs)) (by_name st)"
  "by_barcode (fold (gather fmt n) libs st) =
     store_all (concat (map (barcode_triples get_barcode_seq) libs)) (by_barcode st)"
  "by_barcode2 (fold (gather fmt n) libs st) =
     store_all (concat (map (barcode_triples get_barcode_seq2) libs)) (by_barcode2 st)"
  "by_uuid (fold (gather fmt n) libs st) =
     fold (\<lambda>library. AList.update (sodar_uuid library) library) libs (by_uuid st)"
  "result (fold (gather fmt n) libs st) = fold (gather_result fmt n) libs (result st)"
  by (induction libs arbitrary: st) (simp_all add: gather_fields collect_append store_all_append)

lemma gather_all_fields:
  "by_name (gather_all fmt fc) = collect (concat (map name_pairs (libraries fc))) []"
  "by_barcode (gather_all fmt fc) =
     store_all (concat (map (barcode_triples get_barcode_seq) (libraries fc))) []"
  "by_barcode2 (gather_all fmt fc) =
     store_all (concat (map (barcode_triples get_barcode_seq2) (libraries fc))) []"
  "by_uuid (gather_all fmt fc) =
     fold (\<lambda>library. AList.update (sodar_uuid library) library) (libraries fc) []"
  "result (gather_all fmt fc) = fold (gather_result fmt (num_lanes fc)) (libraries fc) []"
  by (simp_all add: gather_all_def fold_gather_fields init_state_def)

lemma keys_index_libraries:
  "fst ` set (index_libraries libs d) = fst ` set d \<union> sodar_uuid ` set libs"
  by (induction libs arbitrary: d) (auto simp: index_libraries_def dom_update)

lemma map_of_index_libraries_other:
  "u \<notin> sodar_uuid ` set libs \<Longrightarrow> map_of (index_libraries libs d) u = map_of d u"
  by (induction libs arbitrary: d) (auto simp: index_libraries_def update_conv')

lemma map_of_index_libraries:
  "distinct (map sodar_uuid libs) \<Longrightarrow> a \<in> set libs \<Longrightarrow>
   map_of (index_libraries libs d) (sodar_uuid a) = Some a"
proof (induction libs arbitrary: d)
  case Nil
  then show ?case by simp
next
  case (Cons l libs)
  show ?case
  proof (cases "a = l")
    case True
    with Cons.prems have "sodar_uuid a \<notin> sodar_uuid ` set libs" by auto
    then have "map_of (index_libraries libs (AList.update (sodar_uuid l) l d)) (sodar_uuid a)
        = map_of (AList.update (sodar_uuid l) l d) (sodar_uuid a)"
      by (rule map_of_index_libraries_other)
    with True show ?thesis by (simp add: index_libraries_def update_conv')
  next
    case False
    with Cons.prems have "a \<in> set libs" "distinct (map sodar_uuid libs)" by auto
    then have "map_of (index_libraries libs (AList.update (sodar_uuid l) l d)) (sodar_uuid a) = Some a"
      by (intro Cons.IH)
    then show ?thesis by (simp add: index_libraries_def)
  qed
qed

lemma map_of_index_libraries_mem:
  "map_of (index_libraries libs []) u = Some a \<Longrightarrow> a \<in> set libs \<and> sodar_uuid a = u"
proof (induction libs rule: rev_induct)
  case Nil
  then show ?case by (simp add: index_libraries_def)
next
  case (snoc l libs)
  then show ?case
    by (auto simp: index_libraries_def update_conv' split: if_splits)
qed

lemma errors_of_no_field: "\<not> has_field res u key \<Longrightarrow> errors_of res u key = []"
  by (auto simp: has_field_def errors_of_def split: option.splits)

lemma map_of_add_error:
  "map_of (add_error u key msg res) u' =
     (if u' = u then Some (setdefault_append key msg (get_list res u)) else map_of res u')"
  by (auto simp: add_error_def map_of_map_entry map_of_setdefault get_list_def
      split: option.splits)

lemma map_of_default_error:
  "map_of (default_error u key msgs res) u' =
     (if u' = u then Some (setdefault key msgs (get_list res u)) else map_of res u')"
  by (auto simp: default_error_def map_of_map_entry map_of_setdefault get_list_def
      split: option.splits)

lemma errors_of_add_error:
  "errors_of (add_error u key msg res) u' key' =
     errors_of res u' key' @ (if u' = u \<and> key' = key then [msg] else [])"
  by (auto simp: errors_of_def map_of_add_error map_of_setdefault_append get_list_def
      split: option.splits)

lemma has_field_add_error:
  "has_field (add_error u key msg res) u' key' \<longleftrightarrow>
     has_field res u' key' \<or> (u' = u \<and> key' = key)"
  by (auto simp: has_field_def map_of_add_error map_of_setdefault_append get_list_def
      split: option.splits)

lemma errors_of_default_error:
  "errors_of (default_error u key msgs res) u' key' =
     (if u' = u \<and> key' = key \<and> \<not> has_field res u key then msgs else errors_of res u' key')"
  by (auto simp: errors_of_def has_field_def map_of_default_error map_of_setdefault get_list_def
      split: option.splits)

lemma has_field_default_error:
  "has_field (default_error u key msgs res) u' key' \<longleftrightarrow>
     has_field res u' key' \<or> (u' = u \<and> key' = key)"
  by (auto simp: has_field_def map_of_default_error map_of_setdefault get_list_def
      split: option.splits)

lemma gather_result_other:
  "u \<noteq> sodar_uuid l \<Longrightarrow> errors_of (gather_result fmt n l res) u key = errors_of res u key"
  "u \<noteq> sodar_uuid l \<Longrightarrow> has_field (gather_result fmt n l res) u key = has_field res u key"
  by (simp_all add: gather_result_def Let_def errors_of_add_error errors_of_default_error
      has_field_add_error has_field_default_error)

lemma gather_result_own:
  assumes "\<And>key. \<not> has_field res (sodar_uuid l) key"
  shows "errors_of (gather_result fmt n l res) (sodar_uuid l) key =
     (if key = ''name'' \<and> \<not> re_match_name (name l) then [name_chars_msg]
      else if key = ''lane'' \<and> bad_lanes_of n l \<noteq> [] then [lane_msg fmt (bad_lanes_of n l)]
      else [])"
  using assms
  by (simp add: gather_result_def Let_def errors_of_add_error errors_of_default_error
      has_field_add_error errors_of_no_field)

lemma fold_gather_result_other:
  "u \<notin> sodar_uuid ` set libs \<Longrightarrow>
     errors_of (fold (gather_result fmt n) libs res) u key = errors_of res u key"
  by (induction libs arbitrary: res) (simp_all add: gather_result_other)

lemma fold_gather_result_own:
  assumes "distinct (map sodar_uuid libs)" "a \<in> set libs"
    and "\<And>key. \<not> has_field res (sodar_uuid a) key"
  shows "errors_of (fold (gather_result fmt n) libs res) (sodar_uuid a) key =
     (if key = ''name'' \<and> \<not> re_match_name (name a) then [name_chars_msg]
      else if key = ''lane'' \<and> bad_lanes_of n a \<noteq> [] then [lane_msg fmt (bad_lanes_of n a)]
      else [])"
  using assms
proof (induction libs arbitrary: res)
  case Nil
  then show ?case by simp
next
  case (Cons l libs)
  show ?case
  proof (cases "a = l")
    case True
    with Cons.prems(1) have "sodar_uuid a \<notin> sodar_uuid ` set libs" by auto
    then have "errors_of (fold (gather_result fmt n) libs (gather_result fmt n l res)) (sodar_uuid a) key
        = errors_of (gather_result fmt n l res) (sodar_uuid a) key"
      by (rule fold_gather_result_other)
    also have "\<dots> = (if key = ''name'' \<and> \<not> re_match_name (name a) then [name_chars_msg]
      else if key = ''lane'' \<and> bad_lanes_of n a \<noteq> [] then [lane_msg fmt (bad_lanes_of n a)]
      else [])"
      unfolding True using Cons.prems(3) [unfolded True] by (rule gather_result_own)
    finally show ?thesis by simp
  next
    case False
    with Cons.prems have a: "a \<in> set libs" and d: "distinct (map sodar_uuid libs)"
      and "sodar_uuid l \<notin> sodar_uuid ` set libs" by auto
    then have n: "sodar_uuid a \<noteq> sodar_uuid l" by (metis imageI)
    have "\<And>key. \<not> has_field (gather_result fmt n l res) (sodar_uuid a) key"
      using Cons.prems(3) n by (simp add: gather_result_other)
    from Cons.IH [OF d a this] show ?thesis by simp
  qed
qed

lemma phase1_errors:
  assumes "distinct (map sodar_uuid (libraries fc))" "a \<in> set (libraries fc)"
  shows "errors_of (result (gather_all fmt fc)) (sodar_uuid a) key =
     (if key = ''name'' \<and> \<not> re_match_name (name a) then [name_chars_msg]
      else if key = ''lane'' \<and> bad_lanes_of (num_lanes fc) a \<noteq> []
        then [lane_msg fmt (bad_lanes_of (num_lanes fc) a)]
      else [])"
  unfolding gather_all_fields
  by (rule fold_gather_result_own [OF assms]) (simp add: has_field_def)

section \<open>The later loops\<close>

lemma for_each_collect:
  "(\<And>x d. x \<in> set xs \<Longrightarrow> body x d = Inr (collect (f x) d)) \<Longrightarrow>
   for_each body xs d = Inr (collect (concat (map f xs)) d)"
  by (induction xs arbitrary: d) (simp_all add: collect_append)

lemma for_each_ok:
  "(\<And>x s. x \<in> set xs \<Longrightarrow> \<exists>s'. body x s = Inr s') \<Longrightarrow> \<exists>s'. for_each body xs s = Inr s'"
proof (induction xs arbitrary: s)
  case Nil
  show ?case by simp
next
  case (Cons x xs)
  from Cons.prems [of x s] obtain s1 where s1: "body x s = Inr s1" by auto
  from Cons.IH [of s1] Cons.prems obtain s2 where "for_each body xs s1 = Inr s2" by auto
  with s1 show ?case by simp
qed

lemma for_each_errors:
  assumes "for_each body items res = Inr res'" "distinct (map fst items)"
    and "\<And>item r r' u key. item \<in> set items \<Longrightarrow> body item r = Inr r' \<Longrightarrow>
           errors_of r' u key = errors_of r u key @ (if u = fst item then extra item key else [])"
  shows "errors_of res' u key =
     errors_of res u key @ (case map_of items u of None \<Rightarrow> [] | Some v \<Rightarrow> extra (u, v) key)"
  using assms
proof (induction items arbitrary: res)
  case Nil
  then show ?case by simp
next
  case (Cons item items)
  from Cons.prems(1) obtain r1 where r1: "body item res = Inr r1"
    and rest: "for_each body items r1 = Inr res'"
    by (auto split: sum.splits)
  have step: "errors_of r1 u key = errors_of res u key @ (if u = fst item then extra item key else [])"
    using Cons.prems(3) [of item res r1 u key] r1 by simp
  have ih: "errors_of res' u key =
     errors_of r1 u key @ (case map_of items u of None \<Rightarrow> [] | Some v \<Rightarrow> extra (u, v) key)"
    using rest Cons.prems(2) Cons.prems(3) by (intro Cons.IH) auto
  show ?case
  proof (cases "u = fst item")
    case True
    with Cons.prems(2) have "map_of items u = None"
      by (simp add: map_of_eq_None_iff)
    with True ih step show ?thesis by (cases item) simp
  next
    case False
    with ih step show ?thesis by (cases item) simp
  qed
qed

lemma fold_name_clash:
  "fold name_clash items d = collect (concat (map name_clash_pairs items)) d"
proof -
  have e: "name_clash = (\<lambda>item. collect (name_clash_pairs item))"
    by (intro ext) (simp add: name_clash_def name_clash_pairs_def Let_def collect_def fold_map comp_def)
  show ?thesis unfolding e by (rule fold_collect_concat)
qed

lemma barcode_clash_ok:
  "map_of by_b2 (l, get_barcode_seq2 (snd entry)) \<noteq> None \<Longrightarrow>
   barcode_clash by_b2 l libs entry bad = Inr (collect (clash_entry by_b2 l libs entry) bad)"
proof -
  assume "map_of by_b2 (l, get_barcode_seq2 (snd entry)) \<noteq> None"
  then obtain other where o: "map_of by_b2 (l, get_barcode_seq2 (snd entry)) = Some other"
    by auto
  then have g: "get_list by_b2 (l, get_barcode_seq2 (snd entry)) = other"
    by (rule map_of_get_list)
  have c: "\<And>c. (if c then Inr (setdefault_append (sodar_uuid (snd entry)) l bad) else Inr bad)
      = (Inr (collect (if c then [(sodar_uuid (snd entry), l)] else []) bad) :: error + (nat, int list) dict)"
    by simp
  show ?thesis
    unfolding barcode_clash_def clash_entry_def Let_def o g option.case by (rule c)
qed

lemma barcode_group_ok:
  assumes "\<And>entry. entry \<in> set (snd item) \<Longrightarrow>
      map_of by_b2 (fst (fst item), get_barcode_seq2 (snd entry)) \<noteq> None"
  shows "barcode_group by_b2 item bad = Inr (collect (clash_pairs by_b2 item) bad)"
  unfolding barcode_group_def clash_pairs_def
  by (rule for_each_collect) (simp add: barcode_clash_ok assms)

lemma for_each_barcode_group:
  assumes "\<And>item entry. item \<in> set items \<Longrightarrow> entry \<in> set (snd item) \<Longrightarrow>
      map_of by_b2 (fst (fst item), get_barcode_seq2 (snd entry)) \<noteq> None"
  shows "for_each (barcode_group by_b2) items bad =
     Inr (collect (concat (map (clash_pairs by_b2) items)) bad)"
  by (rule for_each_collect) (simp add: barcode_group_ok assms)

lemma name_report_ok:
  "map_of by_u (fst item) = Some l \<Longrightarrow>
   name_report fmt by_u item res = Inr (add_error (fst item) ''name'' (name_msg fmt l (snd item)) res)"
  by (simp add: name_report_def)

lemma barcode_report_ok:
  "map_of by_u (fst item) = Some l \<Longrightarrow>
   barcode_report fmt by_u item res =
     Inr (fold (\<lambda>key. add_error (fst item) key (barcode_msg fmt l (snd item))) (barcode_keys l) res)"
  by (simp add: barcode_report_def)

lemma errors_of_barcode_keys:
  "errors_of (fold (\<lambda>key. add_error u key msg) (barcode_keys l) res) u' key' =
     errors_of res u' key' @ (if u' = u \<and> key' \<in> set (barcode_keys l) then [msg] else [])"
  by (auto simp: barcode_keys_def errors_of_add_error)

section \<open>The checker returns\<close>

lemma get_list_Nil [simp]: "get_list [] k = []"
  by (simp add: get_list_def)

lemma clash_entry_mem:
  "p \<in> set (clash_entry by_b2 l libs entry) \<Longrightarrow> p = (sodar_uuid (snd entry), l)"
  by (cases "(set (map fst libs) \<inter> set (map fst (get_list by_b2 (l, get_barcode_seq2 (snd entry)))))
           - {sodar_uuid (snd entry)} = {}") (simp_all add: clash_entry_def)

lemma clash_pairs_mem:
  "p \<in> set (clash_pairs by_b2 item) \<Longrightarrow>
     \<exists>entry \<in> set (snd item). p = (sodar_uuid (snd entry), fst (fst item))"
  by (auto simp: clash_pairs_def dest: clash_entry_mem)

lemma barcode_triples_keys:
  "fst ` set (concat (map (barcode_triples g) libs)) =
     {(l, g a) | l a. a \<in> set libs \<and> l \<in> set (lane_numbers a)}"
  by (force simp: barcode_triples_def)

lemma name_pairs_mem:
  "(k, a) \<in> set (concat (map name_pairs libs)) \<longleftrightarrow>
     a \<in> set libs \<and> (\<exists>l \<in> set (lane_numbers a). k = (l, name a))"
  by (auto simp: name_pairs_def)

lemma barcode_triples_mem:
  "(k, u, a) \<in> set (concat (map (barcode_triples g) libs)) \<longleftrightarrow>
     a \<in> set libs \<and> u = sodar_uuid a \<and> (\<exists>l \<in> set (lane_numbers a). k = (l, g a))"
  by (auto simp: barcode_triples_def)

lemma by_uuid_keys: "fst ` set (by_uuid (gather_all fmt fc)) = sodar_uuid ` set (libraries fc)"
  using keys_index_libraries [of "libraries fc" "[]"]
  by (simp add: gather_all_fields index_libraries_def)

lemma by_name_distinct: "distinct (map fst (by_name (gather_all fmt fc)))"
  by (simp add: gather_all_fields distinct_collect)

lemma by_name_get:
  "get_list (by_name (gather_all fmt fc)) k =
     map snd (filter (\<lambda>p. fst p = k) (concat (map name_pairs (libraries fc))))"
  by (simp add: gather_all_fields get_list_collect)

lemma by_name_item:
  "(k, ls) \<in> set (by_name (gather_all fmt fc)) \<Longrightarrow>
     ls = map snd (filter (\<lambda>p. fst p = k) (concat (map name_pairs (libraries fc))))"
  using item_get_list [OF by_name_distinct] by_name_get by metis

lemma by_name_item_mem:
  assumes "(k, ls) \<in> set (by_name (gather_all fmt fc))" "a \<in> set ls"
  shows "a \<in> set (libraries fc) \<and> fst k \<in> set (lane_numbers a) \<and> snd k = name a"
proof -
  from assms have "(k, a) \<in> set (concat (map name_pairs (libraries fc)))"
    unfolding by_name_item [OF assms(1)] by auto
  then show ?thesis unfolding name_pairs_mem by auto
qed

lemma by_barcode_distinct:
  "distinct (map fst (by_barcode (gather_all fmt fc)))"
  "distinct (map fst (by_barcode2 (gather_all fmt fc)))"
  by (simp_all add: gather_all_fields distinct_store_all)

lemma by_barcode_keys:
  "fst ` set (by_barcode (gather_all fmt fc)) =
     {(l, get_barcode_seq a) | l a. a \<in> set (libraries fc) \<and> l \<in> set (lane_numbers a)}"
  "fst ` set (by_barcode2 (gather_all fmt fc)) =
     {(l, get_barcode_seq2 a) | l a. a \<in> set (libraries fc) \<and> l \<in> set (lane_numbers a)}"
  unfolding gather_all_fields keys_store_all barcode_triples_keys by simp_all

lemma by_barcode_entry:
  assumes "(u, a) \<in> set (get_list (by_barcode (gather_all fmt fc)) (l, s))"
  shows "a \<in> set (libraries fc) \<and> u = sodar_uuid a \<and> l \<in> set (lane_numbers a) \<and> get_barcode_seq a = s"
  using inner_entries_store_all [OF assms [unfolded gather_all_fields]]
  unfolding barcode_triples_mem by auto

lemma by_barcode2_entry:
  assumes "(u, a) \<in> set (get_list (by_barcode2 (gather_all fmt fc)) (l, s))"
  shows "a \<in> set (libraries fc) \<and> u = sodar_uuid a \<and> l \<in> set (lane_numbers a) \<and> get_barcode_seq2 a = s"
  using inner_entries_store_all [OF assms [unfolded gather_all_fields]]
  unfolding barcode_triples_mem by auto

lemma by_barcode_item:
  assumes "item \<in> set (by_barcode (gather_all fmt fc))" "entry \<in> set (snd item)"
  shows "snd entry \<in> set (libraries fc) \<and> fst entry = sodar_uuid (snd entry)
     \<and> fst (fst item) \<in> set (lane_numbers (snd entry)) \<and> get_barcode_seq (snd entry) = snd (fst item)"
proof -
  obtain l s inner where item: "item = ((l, s), inner)" by (cases item) auto
  obtain u a where entry: "entry = (u, a)" by (cases entry)
  from assms(1) have "get_list (by_barcode (gather_all fmt fc)) (l, s) = inner"
    unfolding item by (rule item_get_list [OF by_barcode_distinct(1)])
  with assms(2) have "(u, a) \<in> set (get_list (by_barcode (gather_all fmt fc)) (l, s))"
    by (simp add: item entry)
  from by_barcode_entry [OF this] show ?thesis by (simp add: item entry)
qed

lemma barcode_lookup_ok:
  assumes "item \<in> set (by_barcode (gather_all fmt fc))" "entry \<in> set (snd item)"
  shows "map_of (by_barcode2 (gather_all fmt fc)) (fst (fst item), get_barcode_seq2 (snd entry)) \<noteq> None"
proof -
  from by_barcode_item [OF assms] have
    "(fst (fst item), get_barcode_seq2 (snd entry)) \<in> fst ` set (by_barcode2 (gather_all fmt fc))"
    unfolding by_barcode_keys by blast
  then show ?thesis by (simp add: map_of_eq_None_iff)
qed

lemma barcode_phase:
  "for_each (barcode_group (by_barcode2 (gather_all fmt fc))) (by_barcode (gather_all fmt fc)) []
     = Inr (barcode_bad_lanes fmt fc)"
  unfolding barcode_bad_lanes_def
  by (rule for_each_barcode_group) (rule barcode_lookup_ok)

lemma name_bad_lanes_eq:
  "name_bad_lanes fmt fc =
     collect (concat (map name_clash_pairs (by_name (gather_all fmt fc)))) []"
  by (simp add: name_bad_lanes_def fold_name_clash)

lemma name_bad_lanes_keys:
  "fst ` set (name_bad_lanes fmt fc) \<subseteq> sodar_uuid ` set (libraries fc)"
proof
  fix u assume "u \<in> fst ` set (name_bad_lanes fmt fc)"
  then obtain item a where "item \<in> set (by_name (gather_all fmt fc))" "a \<in> set (snd item)"
    "u = sodar_uuid a"
    unfolding name_bad_lanes_eq keys_collect
    by (auto simp: name_clash_pairs_def split: if_splits)
  with by_name_item_mem [of "fst item" "snd item" fmt fc a] show "u \<in> sodar_uuid ` set (libraries fc)"
    by auto
qed

lemma barcode_bad_lanes_keys:
  "fst ` set (barcode_bad_lanes fmt fc) \<subseteq> sodar_uuid ` set (libraries fc)"
proof
  fix u assume "u \<in> fst ` set (barcode_bad_lanes fmt fc)"
  then obtain item entry where "item \<in> set (by_barcode (gather_all fmt fc))"
    "entry \<in> set (snd item)" "u = sodar_uuid (snd entry)"
    unfolding barcode_bad_lanes_def keys_collect
    by (auto dest!: clash_pairs_mem)
  with by_barcode_item [of item fmt fc entry] show "u \<in> sodar_uuid ` set (libraries fc)"
    by auto
qed

lemma bad_lanes_distinct:
  "distinct (map fst (name_bad_lanes fmt fc))" "distinct (map fst (barcode_bad_lanes fmt fc))"
  by (simp_all add: name_bad_lanes_eq barcode_bad_lanes_def distinct_collect)

lemma by_uuid_lookup:
  "u \<in> sodar_uuid ` set (libraries fc) \<Longrightarrow> \<exists>l. map_of (by_uuid (gather_all fmt fc)) u = Some l"
  using by_uuid_keys [of fmt fc] by (cases "map_of (by_uuid (gather_all fmt fc)) u")
    (auto simp: map_of_eq_None_iff)

lemma name_phase_ok:
  "\<exists>res1. for_each (name_report fmt (by_uuid (gather_all fmt fc))) (name_bad_lanes fmt fc) res = Inr res1"
proof (rule for_each_ok)
  fix item s assume "item \<in> set (name_bad_lanes fmt fc)"
  with name_bad_lanes_keys [of fmt fc] have "fst item \<in> sodar_uuid ` set (libraries fc)" by auto
  from by_uuid_lookup [OF this] obtain l where
    "map_of (by_uuid (gather_all fmt fc)) (fst item) = Some l" by blast
  then show "\<exists>s'. name_report fmt (by_uuid (gather_all fmt fc)) item s = Inr s'"
    by (simp add: name_report_ok)
qed

lemma barcode_report_phase_ok:
  "\<exists>r. for_each (barcode_report fmt (by_uuid (gather_all fmt fc))) (barcode_bad_lanes fmt fc) res = Inr r"
proof (rule for_each_ok)
  fix item s assume "item \<in> set (barcode_bad_lanes fmt fc)"
  with barcode_bad_lanes_keys [of fmt fc] have "fst item \<in> sodar_uuid ` set (libraries fc)" by auto
  from by_uuid_lookup [OF this] obtain l where
    "map_of (by_uuid (gather_all fmt fc)) (fst item) = Some l" by blast
  then show "\<exists>s'. barcode_report fmt (by_uuid (gather_all fmt fc)) item s = Inr s'"
    by (simp add: barcode_report_ok)
qed

lemma sheet_phases:
  "get_sample_sheet_errors fmt fc =
     (case for_each (name_report fmt (by_uuid (gather_all fmt fc))) (name_bad_lanes fmt fc)
             (result (gather_all fmt fc)) of
        Inl e \<Rightarrow> Inl e
      | Inr res1 \<Rightarrow>
          for_each (barcode_report fmt (by_uuid (gather_all fmt fc))) (barcode_bad_lanes fmt fc) res1)"
  by (simp add: get_sample_sheet_errors_def Let_def name_bad_lanes_def barcode_phase
      split: sum.splits)

lemma sheet_total: "\<exists>r. get_sample_sheet_errors fmt fc = Inr r"
proof -
  from name_phase_ok obtain res1 where
    "for_each (name_report fmt (by_uuid (gather_all fmt fc))) (name_bad_lanes fmt fc)
       (result (gather_all fmt fc)) = Inr res1" by blast
  moreover from barcode_report_phase_ok obtain r where
    "for_each (barcode_report fmt (by_uuid (gather_all fmt fc))) (barcode_bad_lanes fmt fc) res1 = Inr r"
    by blast
  ultimately show ?thesis by (simp add: sheet_phases)
qed

lemma sheet_errors:
  assumes "get_sample_sheet_errors fmt fc = Inr r"
  shows "errors_of r u key =
     errors_of (result (gather_all fmt fc)) u key
       @ (case map_of (name_bad_lanes fmt fc) u of
            None \<Rightarrow> [] | Some lanes \<Rightarrow> name_extra fmt (by_uuid (gather_all fmt fc)) (u, lanes) key)
       @ (case map_of (barcode_bad_lanes fmt fc) u of
            None \<Rightarrow> [] | Some lanes \<Rightarrow> barcode_extra fmt (by_uuid (gather_all fmt fc)) (u, lanes) key)"
proof -
  from assms obtain res1 where
    p1: "for_each (name_report fmt (by_uuid (gather_all fmt fc))) (name_bad_lanes fmt fc)
       (result (gather_all fmt fc)) = Inr res1"
    and p2: "for_each (barcode_report fmt (by_uuid (gather_all fmt fc))) (barcode_bad_lanes fmt fc) res1 = Inr r"
    unfolding sheet_phases by (auto split: sum.splits)
  have e1: "errors_of res1 u key = errors_of (result (gather_all fmt fc)) u key
       @ (case map_of (name_bad_lanes fmt fc) u of
            None \<Rightarrow> [] | Some lanes \<Rightarrow> name_extra fmt (by_uuid (gather_all fmt fc)) (u, lanes) key)"
    using p1 bad_lanes_distinct(1)
  proof (rule for_each_errors)
    fix item r r' u key
    assume "name_report fmt (by_uuid (gather_all fmt fc)) item r = Inr r'"
    then show "errors_of r' u key = errors_of r u key
        @ (if u = fst item then name_extra fmt (by_uuid (gather_all fmt fc)) item key else [])"
      by (auto simp: name_report_def name_extra_def errors_of_add_error split: option.splits)
  qed
  have e2: "errors_of r u key = errors_of res1 u key
       @ (case map_of (barcode_bad_lanes fmt fc) u of
            None \<Rightarrow> [] | Some lanes \<Rightarrow> barcode_extra fmt (by_uuid (gather_all fmt fc)) (u, lanes) key)"
    using p2 bad_lanes_distinct(2)
  proof (rule for_each_errors)
    fix item r r' u key
    assume "barcode_report fmt (by_uuid (gather_all fmt fc)) item r = Inr r'"
    then show "errors_of r' u key = errors_of r u key
        @ (if u = fst item then barcode_extra fmt (by_uuid (gather_all fmt fc)) item key else [])"
      by (auto simp: barcode_report_def barcode_extra_def errors_of_barcode_keys split: option.splits)
  qed
  show ?thesis by (simp add: e1 e2)
qed

section \<open>Lists of blamed lanes\<close>

lemma map_of_collect_Nil:
  "map_of (collect ps []) k =
     (if k \<in> fst ` set ps then Some (map snd (filter (\<lambda>p. fst p = k) ps)) else None)"
proof (cases "k \<in> fst ` set ps")
  case True
  then have "k \<in> fst ` set (collect ps [])" by (simp add: keys_collect)
  then obtain v where v: "map_of (collect ps []) k = Some v"
    by (cases "map_of (collect ps []) k") (auto simp: map_of_eq_None_iff)
  then have "get_list (collect ps []) k = v" by (rule map_of_get_list)
  then have "v = map snd (filter (\<lambda>p. fst p = k) ps)" by (simp add: get_list_collect)
  with v True show ?thesis by simp
next
  case False
  then have "k \<notin> fst ` set (collect ps [])" by (simp add: keys_collect)
  with False show ?thesis by (simp add: map_of_eq_None_iff)
qed

lemma filter_fst_empty: "map snd (filter (\<lambda>p. fst p = k) ps) = [] \<longleftrightarrow> k \<notin> fst ` set ps"
  by (auto simp: filter_empty_conv image_iff)

lemma case_collect:
  "(case map_of (collect ps []) k of None \<Rightarrow> [] | Some v \<Rightarrow> F v) =
     (if map snd (filter (\<lambda>p. fst p = k) ps) = [] then []
      else F (map snd (filter (\<lambda>p. fst p = k) ps)))"
  unfolding map_of_collect_Nil filter_fst_empty by simp

lemma concat_if_single: "concat (map (\<lambda>x. if P x then [f x] else []) xs) = map f (filter P xs)"
  by (induction xs) simp_all

lemma filter_concat_map:
  "filter P (concat (map f xs)) = concat (map (\<lambda>x. filter P (f x)) xs)"
  by (induction xs) simp_all

lemma concat_only:
  "distinct (map f xs) \<Longrightarrow> a \<in> set xs \<Longrightarrow>
     concat (map (\<lambda>x. if f x = f a then g x else []) xs) = g a"
proof (induction xs)
  case Nil
  then show ?case by simp
next
  case (Cons x xs)
  show ?case
  proof (cases "f x = f a")
    case True
    with Cons.prems have "\<forall>y \<in> set xs. f y \<noteq> f a" by (auto simp: image_iff)
    then have "concat (map (\<lambda>x. if f x = f a then g x else []) xs) = []" by (induction xs) auto
    moreover from True Cons.prems have "x = a" by (auto simp: image_iff)
    ultimately show ?thesis by simp
  next
    case False
    with Cons.prems have "a \<in> set xs" "distinct (map f xs)" by auto
    with Cons.IH False show ?thesis by simp
  qed
qed

lemma length_single_filter:
  assumes "filter P xs = [a]"
  shows "length xs \<noteq> 1 \<longleftrightarrow> (\<exists>b \<in> set xs. \<not> P b)"
proof -
  have "length xs = length (filter P xs) + length (filter (\<lambda>x. \<not> P x) xs)"
    by (rule sum_length_filter_compl [symmetric])
  with assms have "length xs \<noteq> 1 \<longleftrightarrow> filter (\<lambda>x. \<not> P x) xs \<noteq> []" by simp
  then show ?thesis by (simp add: filter_empty_conv)
qed

lemma distinct_map_fst_fixed_snd:
  "distinct ks \<Longrightarrow> distinct (map fst (filter (\<lambda>k. snd k = s \<and> Q (fst k)) ks))"
  by (induction ks) (auto simp: image_iff)

lemma uuid_inj:
  "distinct (map sodar_uuid libs) \<Longrightarrow> a \<in> set libs \<Longrightarrow> b \<in> set libs \<Longrightarrow>
     sodar_uuid a = sodar_uuid b \<Longrightarrow> a = b"
  by (auto simp: distinct_map dest: inj_onD)

section \<open>Lanes blamed for a name\<close>

lemma count_list_distinct: "distinct xs \<Longrightarrow> count_list xs x = (if x \<in> set xs then 1 else 0)"
  by (induction xs) auto

lemma name_pairs_at:
  "map snd (filter (\<lambda>p. fst p = (l, n)) (name_pairs b)) =
     (if name b = n then replicate (count_list (lane_numbers b) l) b else [])"
proof -
  have "\<And>ls. map snd (filter (\<lambda>p. fst p = (l, n)) (map (\<lambda>l. ((l, name b), b)) ls)) =
     (if name b = n then replicate (count_list ls l) b else [])"
    subgoal for ls by (induction ls) auto
    done
  then show ?thesis by (simp add: name_pairs_def)
qed

lemma by_name_at:
  "get_list (by_name (gather_all fmt fc)) (l, n) =
     concat (map (\<lambda>b. if name b = n then replicate (count_list (lane_numbers b) l) b else [])
       (libraries fc))"
  unfolding by_name_get filter_concat_map map_concat map_map comp_def name_pairs_at ..

lemma by_name_own:
  assumes "distinct (map sodar_uuid (libraries fc))" "a \<in> set (libraries fc)"
    "distinct (lane_numbers a)"
  shows "filter (\<lambda>b. sodar_uuid b = sodar_uuid a) (get_list (by_name (gather_all fmt fc)) (l, n)) =
     (if n = name a \<and> l \<in> set (lane_numbers a) then [a] else [])"
proof -
  have "filter (\<lambda>b. sodar_uuid b = sodar_uuid a) (get_list (by_name (gather_all fmt fc)) (l, n)) =
      concat (map (\<lambda>b. if sodar_uuid b = sodar_uuid a
        then (if name b = n then replicate (count_list (lane_numbers b) l) b else []) else [])
        (libraries fc))"
    unfolding by_name_at filter_concat_map map_map comp_def
    by (rule arg_cong [where f = concat], rule map_cong) auto
  also have "\<dots> = (if name a = n then replicate (count_list (lane_numbers a) l) a else [])"
    by (rule concat_only [OF assms(1,2)])
  also have "\<dots> = (if n = name a \<and> l \<in> set (lane_numbers a) then [a] else [])"
    using assms(3) by (auto simp: count_list_distinct)
  finally show ?thesis .
qed

lemma set_filter_fst: "set (map snd (filter (\<lambda>p. fst p = k) ps)) = {b. (k, b) \<in> set ps}"
  by (induction ps) auto

lemma by_name_set:
  "set (get_list (by_name (gather_all fmt fc)) (l, n)) =
     {b \<in> set (libraries fc). name b = n \<and> l \<in> set (lane_numbers b)}"
  unfolding by_name_get set_filter_fst name_pairs_mem by auto

lemma by_name_clash:
  assumes "distinct (map sodar_uuid (libraries fc))" "a \<in> set (libraries fc)"
    "distinct (lane_numbers a)" "l \<in> set (lane_numbers a)"
  shows "length (get_list (by_name (gather_all fmt fc)) (l, name a)) \<noteq> 1 \<longleftrightarrow>
     l \<in> name_clash_lanes fc a"
proof -
  have "filter (\<lambda>b. sodar_uuid b = sodar_uuid a) (get_list (by_name (gather_all fmt fc)) (l, name a)) = [a]"
    using by_name_own [OF assms(1-3), of fmt l "name a"] assms(4) by simp
  from length_single_filter [OF this] show ?thesis
    using assms(4) by (auto simp: by_name_set name_clash_lanes_def name_collide_def)
qed

lemma name_clash_pairs_own:
  "map snd (filter (\<lambda>p. fst p = u) (name_clash_pairs ((l, n), ls))) =
     (if length ls \<noteq> 1 then map (\<lambda>b. l) (filter (\<lambda>b. sodar_uuid b = u) ls) else [])"
  by (simp add: name_clash_pairs_def filter_map comp_def)

lemma name_item_own:
  assumes "distinct (map sodar_uuid (libraries fc))" "a \<in> set (libraries fc)"
    "distinct (lane_numbers a)" "item \<in> set (by_name (gather_all fmt fc))"
  shows "map snd (filter (\<lambda>p. fst p = sodar_uuid a) (name_clash_pairs item)) =
     (if snd (fst item) = name a \<and> fst (fst item) \<in> name_clash_lanes fc a then [fst (fst item)] else [])"
proof -
  obtain l n ls where item: "item = ((l, n), ls)" by (cases item) auto
  from assms(4) have ls: "ls = get_list (by_name (gather_all fmt fc)) (l, n)"
    unfolding item by (rule item_get_list [OF by_name_distinct, symmetric])
  have sub: "l \<in> name_clash_lanes fc a \<Longrightarrow> l \<in> set (lane_numbers a)"
    by (auto simp: name_clash_lanes_def name_collide_def)
  show ?thesis
  proof (cases "n = name a \<and> l \<in> set (lane_numbers a)")
    case True
    then show ?thesis
      unfolding item name_clash_pairs_own ls by_name_own [OF assms(1-3)]
      using by_name_clash [OF assms(1-3), of l fmt] by simp
  next
    case False
    then show ?thesis
      unfolding item name_clash_pairs_own ls by_name_own [OF assms(1-3)]
      using sub by auto
  qed
qed

lemma name_bad_lanes_own:
  assumes "distinct (map sodar_uuid (libraries fc))" "a \<in> set (libraries fc)"
    "distinct (lane_numbers a)"
  shows "get_list (name_bad_lanes fmt fc) (sodar_uuid a) =
     map fst (filter (\<lambda>k. snd k = name a \<and> fst k \<in> name_clash_lanes fc a)
       (map fst (by_name (gather_all fmt fc))))"
proof -
  have "get_list (name_bad_lanes fmt fc) (sodar_uuid a) =
      concat (map (\<lambda>item. map snd (filter (\<lambda>p. fst p = sodar_uuid a) (name_clash_pairs item)))
        (by_name (gather_all fmt fc)))"
    unfolding name_bad_lanes_eq get_list_collect filter_concat_map map_concat map_map comp_def
    by simp
  also have "\<dots> = concat (map (\<lambda>item.
        if snd (fst item) = name a \<and> fst (fst item) \<in> name_clash_lanes fc a then [fst (fst item)] else [])
        (by_name (gather_all fmt fc)))"
    by (rule arg_cong [where f = concat], rule map_cong [OF refl], rule name_item_own [OF assms])
  also have "\<dots> = map fst (filter (\<lambda>k. snd k = name a \<and> fst k \<in> name_clash_lanes fc a)
       (map fst (by_name (gather_all fmt fc))))"
    unfolding concat_if_single by (simp add: filter_map comp_def)
  finally show ?thesis .
qed

lemma name_core:
  assumes "distinct (map sodar_uuid (libraries fc))" "a \<in> set (libraries fc)"
    "distinct (lane_numbers a)"
  shows "distinct (get_list (name_bad_lanes fmt fc) (sodar_uuid a))"
    and "set (get_list (name_bad_lanes fmt fc) (sodar_uuid a)) = name_clash_lanes fc a"
proof -
  show "distinct (get_list (name_bad_lanes fmt fc) (sodar_uuid a))"
    unfolding name_bad_lanes_own [OF assms]
    by (rule distinct_map_fst_fixed_snd [OF by_name_distinct])
  have keys: "\<And>l. l \<in> name_clash_lanes fc a \<Longrightarrow> (l, name a) \<in> fst ` set (by_name (gather_all fmt fc))"
  proof -
    fix l assume "l \<in> name_clash_lanes fc a"
    then have "l \<in> set (lane_numbers a)" by (auto simp: name_clash_lanes_def name_collide_def)
    with assms(2) have "((l, name a), a) \<in> set (concat (map name_pairs (libraries fc)))"
      unfolding name_pairs_mem by auto
    then show "(l, name a) \<in> fst ` set (by_name (gather_all fmt fc))"
      unfolding gather_all_fields keys_collect by force
  qed
  show "set (get_list (name_bad_lanes fmt fc) (sodar_uuid a)) = name_clash_lanes fc a"
    unfolding name_bad_lanes_own [OF assms] using keys by (auto simp: image_iff)
qed

section \<open>Lanes blamed for a barcode combination\<close>

lemma by_barcode_inner_keys:
  "fst ` set (get_list (by_barcode (gather_all fmt fc)) (l, s)) =
     {sodar_uuid b | b. b \<in> set (libraries fc) \<and> l \<in> set (lane_numbers b) \<and> get_barcode_seq b = s}"
  "fst ` set (get_list (by_barcode2 (gather_all fmt fc)) (l, s)) =
     {sodar_uuid b | b. b \<in> set (libraries fc) \<and> l \<in> set (lane_numbers b) \<and> get_barcode_seq2 b = s}"
  unfolding gather_all_fields inner_keys_store_all barcode_triples_mem by auto

lemma by_barcode_inner_distinct:
  "distinct (map fst (get_list (by_barcode (gather_all fmt fc)) k))"
  unfolding gather_all_fields by (rule inner_distinct_store_all) simp

lemma clash_condition:
  assumes "distinct (map sodar_uuid (libraries fc))" "a \<in> set (libraries fc)"
  shows "(set (map fst (get_list (by_barcode (gather_all fmt fc)) (l, get_barcode_seq a)))
          \<inter> set (map fst (get_list (by_barcode2 (gather_all fmt fc)) (l, get_barcode_seq2 a))))
          - {sodar_uuid a} \<noteq> {}
     \<longleftrightarrow> (\<exists>b \<in> set (libraries fc). sodar_uuid b \<noteq> sodar_uuid a \<and> l \<in> set (lane_numbers b)
            \<and> get_barcode_seq b = get_barcode_seq a \<and> get_barcode_seq2 b = get_barcode_seq2 a)"
    (is "?L \<longleftrightarrow> ?R")
proof
  assume ?L
  then obtain u where u: "u \<in> fst ` set (get_list (by_barcode (gather_all fmt fc)) (l, get_barcode_seq a))"
    "u \<in> fst ` set (get_list (by_barcode2 (gather_all fmt fc)) (l, get_barcode_seq2 a))"
    "u \<noteq> sodar_uuid a" by auto
  from u(1) obtain b where b: "b \<in> set (libraries fc)" "u = sodar_uuid b" "l \<in> set (lane_numbers b)"
    "get_barcode_seq b = get_barcode_seq a"
    unfolding by_barcode_inner_keys by auto
  from u(2) obtain b' where b': "b' \<in> set (libraries fc)" "u = sodar_uuid b'"
    "get_barcode_seq2 b' = get_barcode_seq2 a"
    unfolding by_barcode_inner_keys by auto
  from b(1,2) b'(1,2) have "b = b'" using uuid_inj [OF assms(1)] by simp
  with b b' u(3) show ?R by auto
next
  assume ?R
  then obtain b where b: "b \<in> set (libraries fc)" "sodar_uuid b \<noteq> sodar_uuid a"
    "l \<in> set (lane_numbers b)" "get_barcode_seq b = get_barcode_seq a"
    "get_barcode_seq2 b = get_barcode_seq2 a" by auto
  then have "sodar_uuid b \<in> fst ` set (get_list (by_barcode (gather_all fmt fc)) (l, get_barcode_seq a))"
    "sodar_uuid b \<in> fst ` set (get_list (by_barcode2 (gather_all fmt fc)) (l, get_barcode_seq2 a))"
    unfolding by_barcode_inner_keys by auto
  with b(2) show ?L by auto
qed

lemma concat_only_eq:
  "distinct xs \<Longrightarrow> concat (map (\<lambda>x. if x = a then g else []) xs) = (if a \<in> set xs then g else [])"
  by (induction xs) auto

lemma filter_fst_const:
  "(\<And>p. p \<in> set xs \<Longrightarrow> fst p = v) \<Longrightarrow>
     map snd (filter (\<lambda>p. fst p = u) xs) = (if v = u then map snd xs else [])"
  by (induction xs) auto

lemma clash_entry_filter:
  "map snd (filter (\<lambda>p. fst p = u) (clash_entry by_b2 l libs entry)) =
     (if sodar_uuid (snd entry) = u then map snd (clash_entry by_b2 l libs entry) else [])"
  by (rule filter_fst_const) (auto dest: clash_entry_mem)

lemma own_entry:
  assumes "distinct (map sodar_uuid (libraries fc))" "a \<in> set (libraries fc)"
  shows "(sodar_uuid a, a) \<in> set (get_list (by_barcode (gather_all fmt fc)) (l, s)) \<longleftrightarrow>
     s = get_barcode_seq a \<and> l \<in> set (lane_numbers a)"
proof
  assume "(sodar_uuid a, a) \<in> set (get_list (by_barcode (gather_all fmt fc)) (l, s))"
  from by_barcode_entry [OF this] show "s = get_barcode_seq a \<and> l \<in> set (lane_numbers a)" by simp
next
  assume r: "s = get_barcode_seq a \<and> l \<in> set (lane_numbers a)"
  with assms(2) have "sodar_uuid a \<in> fst ` set (get_list (by_barcode (gather_all fmt fc)) (l, s))"
    unfolding by_barcode_inner_keys by auto
  then obtain b where b: "(sodar_uuid a, b) \<in> set (get_list (by_barcode (gather_all fmt fc)) (l, s))"
    by auto
  from by_barcode_entry [OF b] have "b \<in> set (libraries fc)" "sodar_uuid a = sodar_uuid b" by auto
  with uuid_inj [OF assms(1,2)] have "a = b" by simp
  with b show "(sodar_uuid a, a) \<in> set (get_list (by_barcode (gather_all fmt fc)) (l, s))" by simp
qed

lemma barcode_item_own:
  assumes "distinct (map sodar_uuid (libraries fc))" "a \<in> set (libraries fc)"
    "item \<in> set (by_barcode (gather_all fmt fc))"
  shows "map snd (filter (\<lambda>p. fst p = sodar_uuid a)
        (clash_pairs (by_barcode2 (gather_all fmt fc)) item)) =
     (if snd (fst item) = get_barcode_seq a \<and> fst (fst item) \<in> barcode_clash_lanes fc a
      then [fst (fst item)] else [])"
proof -
  obtain l s inner where item: "item = ((l, s), inner)" by (cases item) auto
  from assms(3) have inner: "inner = get_list (by_barcode (gather_all fmt fc)) (l, s)"
    unfolding item by (rule item_get_list [OF by_barcode_distinct(1), symmetric])
  have d: "distinct inner"
    using by_barcode_inner_distinct [of fmt fc "(l, s)"] unfolding inner
    by (rule distinct_map [THEN iffD1, THEN conjunct1])
  have own: "\<And>e. e \<in> set inner \<Longrightarrow> sodar_uuid (snd e) = sodar_uuid a \<longleftrightarrow> e = (sodar_uuid a, a)"
  proof -
    fix e assume "e \<in> set inner"
    then have "(fst e, snd e) \<in> set (get_list (by_barcode (gather_all fmt fc)) (l, s))"
      by (simp add: inner)
    from by_barcode_entry [OF this] have e: "snd e \<in> set (libraries fc)" "fst e = sodar_uuid (snd e)"
      by auto
    show "sodar_uuid (snd e) = sodar_uuid a \<longleftrightarrow> e = (sodar_uuid a, a)"
    proof
      assume "sodar_uuid (snd e) = sodar_uuid a"
      with uuid_inj [OF assms(1) e(1) assms(2)] have "snd e = a" by simp
      with e(2) show "e = (sodar_uuid a, a)" by (cases e) simp
    qed simp
  qed
  have "map snd (filter (\<lambda>p. fst p = sodar_uuid a) (clash_pairs (by_barcode2 (gather_all fmt fc)) item))
      = concat (map (\<lambda>e. if sodar_uuid (snd e) = sodar_uuid a
          then map snd (clash_entry (by_barcode2 (gather_all fmt fc)) l inner e) else []) inner)"
    unfolding item clash_pairs_def filter_concat_map map_concat map_map comp_def fst_conv snd_conv
      clash_entry_filter ..
  also have "\<dots> = concat (map (\<lambda>e. if e = (sodar_uuid a, a)
          then map snd (clash_entry (by_barcode2 (gather_all fmt fc)) l inner (sodar_uuid a, a)) else [])
          inner)"
    by (rule arg_cong [where f = concat], rule map_cong [OF refl]) (auto simp: own)
  also have "\<dots> = (if (sodar_uuid a, a) \<in> set inner
      then map snd (clash_entry (by_barcode2 (gather_all fmt fc)) l inner (sodar_uuid a, a)) else [])"
    by (rule concat_only_eq [OF d])
  also have "\<dots> = (if s = get_barcode_seq a \<and> l \<in> barcode_clash_lanes fc a then [l] else [])"
  proof (cases "s = get_barcode_seq a \<and> l \<in> set (lane_numbers a)")
    case True
    then have m: "(sodar_uuid a, a) \<in> set inner"
      unfolding inner own_entry [OF assms(1,2)] .
    from True have i: "inner = get_list (by_barcode (gather_all fmt fc)) (l, get_barcode_seq a)"
      by (simp add: inner)
    have c: "(set (map fst inner)
          \<inter> set (map fst (get_list (by_barcode2 (gather_all fmt fc)) (l, get_barcode_seq2 a))))
          - {sodar_uuid a} \<noteq> {} \<longleftrightarrow> l \<in> barcode_clash_lanes fc a"
      unfolding i clash_condition [OF assms(1,2)]
      using True by (auto simp: barcode_clash_lanes_def barcode_collide_def)
    show ?thesis
    proof (cases "l \<in> barcode_clash_lanes fc a")
      case True
      with c m \<open>s = get_barcode_seq a \<and> l \<in> set (lane_numbers a)\<close> show ?thesis
        by (simp add: clash_entry_def)
    next
      case False
      with c m show ?thesis by (simp add: clash_entry_def)
    qed
  next
    case False
    then have "(sodar_uuid a, a) \<notin> set inner"
      unfolding inner own_entry [OF assms(1,2)] .
    moreover from False have "\<not> (s = get_barcode_seq a \<and> l \<in> barcode_clash_lanes fc a)"
      by (auto simp: barcode_clash_lanes_def barcode_collide_def)
    ultimately show ?thesis by simp
  qed
  finally show ?thesis by (simp add: item)
qed

lemma barcode_bad_lanes_own:
  assumes "distinct (map sodar_uuid (libraries fc))" "a \<in> set (libraries fc)"
  shows "get_list (barcode_bad_lanes fmt fc) (sodar_uuid a) =
     map fst (filter (\<lambda>k. snd k = get_barcode_seq a \<and> fst k \<in> barcode_clash_lanes fc a)
       (map fst (by_barcode (gather_all fmt fc))))"
proof -
  have "get_list (barcode_bad_lanes fmt fc) (sodar_uuid a) =
      concat (map (\<lambda>item. map snd (filter (\<lambda>p. fst p = sodar_uuid a)
          (clash_pairs (by_barcode2 (gather_all fmt fc)) item)))
        (by_barcode (gather_all fmt fc)))"
    unfolding barcode_bad_lanes_def get_list_collect filter_concat_map map_concat map_map comp_def
    by simp
  also have "\<dots> = concat (map (\<lambda>item.
        if snd (fst item) = get_barcode_seq a \<and> fst (fst item) \<in> barcode_clash_lanes fc a
        then [fst (fst item)] else [])
        (by_barcode (gather_all fmt fc)))"
    by (rule arg_cong [where f = concat], rule map_cong [OF refl], rule barcode_item_own [OF assms])
  also have "\<dots> = map fst (filter (\<lambda>k. snd k = get_barcode_seq a \<and> fst k \<in> barcode_clash_lanes fc a)
       (map fst (by_barcode (gather_all fmt fc))))"
    unfolding concat_if_single by (simp add: filter_map comp_def)
  finally show ?thesis .
qed

lemma barcode_core:
  assumes "distinct (map sodar_uuid (libraries fc))" "a \<in> set (libraries fc)"
  shows "distinct (get_list (barcode_bad_lanes fmt fc) (sodar_uuid a))"
    and "set (get_list (barcode_bad_lanes fmt fc) (sodar_uuid a)) = barcode_clash_lanes fc a"
proof -
  show "distinct (get_list (barcode_bad_lanes fmt fc) (sodar_uuid a))"
    unfolding barcode_bad_lanes_own [OF assms]
    by (rule distinct_map_fst_fixed_snd [OF by_barcode_distinct(1)])
  have keys: "\<And>l. l \<in> barcode_clash_lanes fc a \<Longrightarrow>
      (l, get_barcode_seq a) \<in> fst ` set (by_barcode (gather_all fmt fc))"
    unfolding by_barcode_keys using assms(2)
    by (auto simp: barcode_clash_lanes_def barcode_collide_def)
  show "set (get_list (barcode_bad_lanes fmt fc) (sodar_uuid a)) = barcode_clash_lanes fc a"
    unfolding barcode_bad_lanes_own [OF assms] using keys by (auto simp: image_iff)
qed

section \<open>The fields of a library in the report\<close>

lemma by_uuid_own:
  assumes "distinct (map sodar_uuid (libraries fc))" "a \<in> set (libraries fc)"
  shows "map_of (by_uuid (gather_all fmt fc)) (sodar_uuid a) = Some a"
  using map_of_index_libraries [OF assms, of "[]"]
  by (simp add: gather_all_fields index_libraries_def)

lemma barcode_keys_mem:
  "''barcode'' \<in> set (barcode_keys a) \<longleftrightarrow> truthy (get_barcode_seq a) \<or> \<not> truthy (get_barcode_seq2 a)"
  "''barcode2'' \<in> set (barcode_keys a) \<longleftrightarrow> truthy (get_barcode_seq2 a) \<or> \<not> truthy (get_barcode_seq a)"
  "''name'' \<notin> set (barcode_keys a)"
  "''lane'' \<notin> set (barcode_keys a)"
  by (auto simp: barcode_keys_def)

lemma case_collect_get:
  "(case map_of (collect ps []) k of None \<Rightarrow> [] | Some v \<Rightarrow> F v) =
     (if get_list (collect ps []) k = [] then [] else F (get_list (collect ps []) k))"
  by (simp add: case_collect get_list_collect)

lemma sheet_fields:
  assumes "distinct (map sodar_uuid (libraries fc))" "a \<in> set (libraries fc)"
    and "get_sample_sheet_errors fmt fc = Inr r"
  shows "errors_of r (sodar_uuid a) key =
     (if key = ''name'' \<and> \<not> re_match_name (name a) then [name_chars_msg]
      else if key = ''lane'' \<and> bad_lanes_of (num_lanes fc) a \<noteq> []
        then [lane_msg fmt (bad_lanes_of (num_lanes fc) a)]
      else [])
     @ (if key = ''name'' \<and> get_list (name_bad_lanes fmt fc) (sodar_uuid a) \<noteq> []
        then [name_msg fmt a (get_list (name_bad_lanes fmt fc) (sodar_uuid a))] else [])
     @ (if key \<in> set (barcode_keys a) \<and> get_list (barcode_bad_lanes fmt fc) (sodar_uuid a) \<noteq> []
        then [barcode_msg fmt a (get_list (barcode_bad_lanes fmt fc) (sodar_uuid a))] else [])"
proof -
  have n: "(case map_of (name_bad_lanes fmt fc) (sodar_uuid a) of None \<Rightarrow> []
        | Some lanes \<Rightarrow> name_extra fmt (by_uuid (gather_all fmt fc)) (sodar_uuid a, lanes) key)
      = (if key = ''name'' \<and> get_list (name_bad_lanes fmt fc) (sodar_uuid a) \<noteq> []
        then [name_msg fmt a (get_list (name_bad_lanes fmt fc) (sodar_uuid a))] else [])"
    unfolding name_bad_lanes_eq case_collect_get
    by (simp add: name_extra_def by_uuid_own [OF assms(1,2)])
  have b: "(case map_of (barcode_bad_lanes fmt fc) (sodar_uuid a) of None \<Rightarrow> []
        | Some lanes \<Rightarrow> barcode_extra fmt (by_uuid (gather_all fmt fc)) (sodar_uuid a, lanes) key)
      = (if key \<in> set (barcode_keys a) \<and> get_list (barcode_bad_lanes fmt fc) (sodar_uuid a) \<noteq> []
        then [barcode_msg fmt a (get_list (barcode_bad_lanes fmt fc) (sodar_uuid a))] else [])"
    unfolding barcode_bad_lanes_def case_collect_get
    by (simp add: barcode_extra_def by_uuid_own [OF assms(1,2)])
  show ?thesis
    unfolding sheet_errors [OF assms(3)] phase1_errors [OF assms(1,2)] n b ..
qed

lemma by_barcode2_item:
  assumes "item \<in> set (by_barcode2 (gather_all fmt fc))" "entry \<in> set (snd item)"
  shows "snd entry \<in> set (libraries fc) \<and> fst entry = sodar_uuid (snd entry)
     \<and> fst (fst item) \<in> set (lane_numbers (snd entry))"
proof -
  obtain l s inner where item: "item = ((l, s), inner)" by (cases item) auto
  obtain u a where entry: "entry = (u, a)" by (cases entry)
  from assms(1) have "get_list (by_barcode2 (gather_all fmt fc)) (l, s) = inner"
    unfolding item by (rule item_get_list [OF by_barcode_distinct(2)])
  with assms(2) have "(u, a) \<in> set (get_list (by_barcode2 (gather_all fmt fc)) (l, s))"
    by (simp add: item entry)
  from by_barcode2_entry [OF this] show ?thesis by (simp add: item entry)
qed

lemma distinct_pairs_disjoint:
  "distinct (concat (map f xs)) \<Longrightarrow> a \<in> set xs \<Longrightarrow> b \<in> set xs \<Longrightarrow> a \<noteq> b \<Longrightarrow>
     set (f a) \<inter> set (f b) = {}"
  by (induction xs) auto

lemma distinct_pairs_each:
  "distinct (concat (map f xs)) \<Longrightarrow> a \<in> set xs \<Longrightarrow> distinct (f a)"
  by (induction xs) auto

lemma distinct_pairs_no_clash:
  assumes "distinct (lane_name_pairs fc)" "a \<in> set (libraries fc)"
  shows "name_clash_lanes fc a = {}" and "distinct (lane_numbers a)"
proof -
  show "name_clash_lanes fc a = {}"
  proof (rule ccontr)
    assume "name_clash_lanes fc a \<noteq> {}"
    then obtain l b where b: "b \<in> set (libraries fc)" "sodar_uuid b \<noteq> sodar_uuid a"
      "name b = name a" "l \<in> set (lane_numbers a)" "l \<in> set (lane_numbers b)"
      by (auto simp: name_clash_lanes_def name_collide_def)
    then have "a \<noteq> b" by auto
    from distinct_pairs_disjoint [OF assms(1) [unfolded lane_name_pairs_def] assms(2) b(1) this]
    show False using b(3-5) by auto
  qed
  from distinct_pairs_each [OF assms(1) [unfolded lane_name_pairs_def] assms(2)]
  show "distinct (lane_numbers a)" by (simp add: distinct_map)
qed

lemma bad_lanes_of_set:
  "set (bad_lanes_of n a) = {no \<in> set (lane_numbers a). no < 1 \<or> no > n}"
  by (auto simp: bad_lanes_of_def)

section \<open>Errors under \<open>name\<close>\<close>

text \<open>
  C3 (amended). In a flow cell whose libraries have distinct UUIDs, the checker returns a
  report, and the field \<open>name\<close> of a library holds the message about the characters of
  the name when the pattern does not match the name, followed by at most one message
  "Library name ... is not unique for lane(s) ...", present when the list of blamed lanes
  is not empty. When the library lists no lane twice, the blamed lanes are listed once
  each and are exactly the lanes on which another library of the flow cell has the same
  name, so the plural follows their number. When all (lane, name) pairs of the sample
  sheet are distinct, no uniqueness message is given: a library whose name matches the
  pattern then has no \<open>name\<close> error.
\<close>

theorem name_errors:
  assumes "distinct (map sodar_uuid (libraries fc))" and "a \<in> set (libraries fc)"
  shows "\<exists>r lanes. get_sample_sheet_errors fmt fc = Inr r
     \<and> errors_of r (sodar_uuid a) ''name'' =
         (if re_match_name (name a) then [] else [name_chars_msg])
         @ (if lanes = [] then [] else [name_msg fmt a lanes])
     \<and> name_msg fmt a lanes =
         ''Library name '' @ name a @ '' is not unique for lane''
           @ (if length lanes > 1 then ''s'' else []) @ '' '' @ fmt lanes
     \<and> (distinct (lane_numbers a) \<longrightarrow> distinct lanes \<and> set lanes = name_clash_lanes fc a)
     \<and> (distinct (lane_name_pairs fc) \<longrightarrow> lanes = [])"
proof -
  from sheet_total obtain r where r: "get_sample_sheet_errors fmt fc = Inr r" by blast
  let ?lanes = "get_list (name_bad_lanes fmt fc) (sodar_uuid a)"
  have e: "errors_of r (sodar_uuid a) ''name'' =
         (if re_match_name (name a) then [] else [name_chars_msg])
         @ (if ?lanes = [] then [] else [name_msg fmt a ?lanes])"
    unfolding sheet_fields [OF assms r] by (simp add: barcode_keys_mem)
  have m: "name_msg fmt a ?lanes =
         ''Library name '' @ name a @ '' is not unique for lane''
           @ (if length ?lanes > 1 then ''s'' else []) @ '' '' @ fmt ?lanes"
    by (simp add: name_msg_def plural_def)
  have c: "distinct (lane_numbers a) \<longrightarrow> distinct ?lanes \<and> set ?lanes = name_clash_lanes fc a"
    using name_core [OF assms] by blast
  have p: "distinct (lane_name_pairs fc) \<longrightarrow> ?lanes = []"
  proof
    assume dp: "distinct (lane_name_pairs fc)"
    from distinct_pairs_no_clash [OF dp assms(2)] name_core(2) [OF assms]
    have "set ?lanes = {}" by simp
    then show "?lanes = []" by simp
  qed
  from r e m c p show ?thesis by blast
qed

theorem name_errors_witness:
  "distinct (map sodar_uuid (libraries same_name_cell))
   \<and> lib 12 ''Lib1'' (Some ''AAAA'') (Some ''GGGG'') [3] \<in> set (libraries same_name_cell)
   \<and> distinct (lane_numbers (lib 12 ''Lib1'' (Some ''AAAA'') (Some ''GGGG'') [3]))
   \<and> (\<exists>r lanes. get_sample_sheet_errors pretty_range same_name_cell = Inr r
     \<and> errors_of r 12 ''name'' =
         (if lanes = [] then []
          else [name_msg pretty_range (lib 12 ''Lib1'' (Some ''AAAA'') (Some ''GGGG'') [3]) lanes])
     \<and> distinct lanes
     \<and> set lanes = name_clash_lanes same_name_cell (lib 12 ''Lib1'' (Some ''AAAA'') (Some ''GGGG'') [3]))
   \<and> errors_of [(11, [(''name'', [''Library name Lib1 is not unique for lane 3''])]),
                 (12, [(''name'', [''Library name Lib1 is not unique for lane 3''])])] 12 ''name''
       = [''Library name Lib1 is not unique for lane 3'']"
proof -
  let ?a = "lib 12 ''Lib1'' (Some ''AAAA'') (Some ''GGGG'') [3]"
  have d: "distinct (map sodar_uuid (libraries same_name_cell))"
    by (simp add: same_name_cell_def cell_def lib_def)
  have m: "?a \<in> set (libraries same_name_cell)"
    by (simp add: same_name_cell_def cell_def)
  have l: "distinct (lane_numbers ?a)" by (simp add: lib_def)
  have t: "re_match_name (name ?a)" "sodar_uuid ?a = 12"
    by (simp_all add: lib_def re_match_name_def name_char_def)
  have v: "errors_of [(11, [(''name'', [''Library name Lib1 is not unique for lane 3''])]),
                 (12, [(''name'', [''Library name Lib1 is not unique for lane 3''])])] 12 ''name''
       = [''Library name Lib1 is not unique for lane 3'']"
    by (simp add: errors_of_def)
  from name_errors [OF d m, of pretty_range] l obtain r lanes where
    "get_sample_sheet_errors pretty_range same_name_cell = Inr r"
    "errors_of r 12 ''name'' = (if lanes = [] then [] else [name_msg pretty_range ?a lanes])"
    "distinct lanes" "set lanes = name_clash_lanes same_name_cell ?a"
    using t by auto
  with d m l v show ?thesis by blast
qed

text \<open>
  The claim as stated fails: the (lane, name) pairs of this flow cell are distinct, and
  its one library, named \<open>a b\<close>, gets an error under \<open>name\<close>.
\<close>

theorem bad_chars_counterexample:
  "distinct (lane_name_pairs bad_chars_cell)
   \<and> get_sample_sheet_errors pretty_range bad_chars_cell =
       Inr [(11, [(''name'',
         [''Library names may only contain alphanumeric characters, hyphens, and underscores''])])]"
  by code_simp

section \<open>Errors under \<open>lane\<close>\<close>

text \<open>
  C4. In a flow cell whose libraries have distinct UUIDs, a library has an error under
  \<open>lane\<close> exactly when one of its lane numbers is below 1 or above \<open>num_lanes\<close>; the one
  message then formats the sorted list of its invalid lane numbers, and of no other
  number.
\<close>

theorem lane_errors:
  assumes "distinct (map sodar_uuid (libraries fc))" and "a \<in> set (libraries fc)"
  shows "\<exists>r. get_sample_sheet_errors fmt fc = Inr r
     \<and> errors_of r (sodar_uuid a) ''lane'' =
         (if \<exists>no \<in> set (lane_numbers a). no < 1 \<or> no > num_lanes fc
          then [lane_msg fmt (bad_lanes_of (num_lanes fc) a)] else [])
     \<and> set (bad_lanes_of (num_lanes fc) a) =
         {no \<in> set (lane_numbers a). no < 1 \<or> no > num_lanes fc}
     \<and> lane_msg fmt (bad_lanes_of (num_lanes fc) a) =
         ''Flow cell does not have lane''
           @ (if length (bad_lanes_of (num_lanes fc) a) > 1 then ''s'' else [])
           @ '' #'' @ fmt (bad_lanes_of (num_lanes fc) a)"
proof -
  from sheet_total obtain r where r: "get_sample_sheet_errors fmt fc = Inr r" by blast
  have ne: "bad_lanes_of (num_lanes fc) a \<noteq> [] \<longleftrightarrow>
      (\<exists>no \<in> set (lane_numbers a). no < 1 \<or> no > num_lanes fc)"
    using bad_lanes_of_set [of "num_lanes fc" a] by (auto simp flip: set_empty)
  have "errors_of r (sodar_uuid a) ''lane'' =
         (if \<exists>no \<in> set (lane_numbers a). no < 1 \<or> no > num_lanes fc
          then [lane_msg fmt (bad_lanes_of (num_lanes fc) a)] else [])"
    unfolding sheet_fields [OF assms r] ne [symmetric] by (simp add: barcode_keys_mem)
  with r show ?thesis by (simp add: bad_lanes_of_set lane_msg_def plural_def)
qed

theorem lane_errors_witness:
  "distinct (map sodar_uuid (libraries lane_cell))
   \<and> lib 11 ''L1'' (Some ''ACGT'') None [2, 9] \<in> set (libraries lane_cell)
   \<and> (\<exists>r. get_sample_sheet_errors pretty_range lane_cell = Inr r
        \<and> errors_of r 11 ''lane'' = [''Flow cell does not have lane #9''])
   \<and> bad_lanes_of (num_lanes lane_cell) (lib 11 ''L1'' (Some ''ACGT'') None [2, 9]) = [9]"
proof -
  let ?a = "lib 11 ''L1'' (Some ''ACGT'') None [2, 9]"
  have d: "distinct (map sodar_uuid (libraries lane_cell))"
    by (simp add: lane_cell_def cell_def lib_def)
  have m: "?a \<in> set (libraries lane_cell)"
    by (simp add: lane_cell_def cell_def)
  have b: "bad_lanes_of (num_lanes lane_cell) ?a = [9]"
    by (simp add: bad_lanes_of_def lane_cell_def cell_def lib_def)
  have f: "pretty_range [9] = ''9''"
    by (simp add: pretty_range_def str_int_def str_nat.simps digit_char_def)
  have t: "sodar_uuid ?a = 11" "\<exists>no \<in> set (lane_numbers ?a). no < 1 \<or> no > num_lanes lane_cell"
    by (simp_all add: lib_def lane_cell_def cell_def)
  from lane_errors [OF d m, of pretty_range] obtain r where
    "get_sample_sheet_errors pretty_range lane_cell = Inr r"
    "errors_of r 11 ''lane'' = [lane_msg pretty_range [9]]"
    unfolding b using t by auto
  then have "\<exists>r. get_sample_sheet_errors pretty_range lane_cell = Inr r
        \<and> errors_of r 11 ''lane'' = [''Flow cell does not have lane #9'']"
    by (simp add: lane_msg_def plural_def f)
  with d m b show ?thesis by blast
qed

section \<open>Errors under \<open>barcode\<close> and \<open>barcode2\<close>\<close>

text \<open>
  C1 (amended). In a flow cell whose libraries have distinct UUIDs, the checker returns a
  report, and the barcode messages of a library \<open>a\<close> name exactly the lanes on which
  another library of the flow cell shares the lane with \<open>a\<close> and has the same resolved
  first sequence and the same resolved second sequence; \<open>a\<close> has a barcode message
  exactly when there is such a lane. The sequences are compared as values: an absent
  sequence and an empty one are two different keys. Two libraries that share one of the
  two sequences only give no barcode message to each other.
\<close>

theorem barcode_collision_iff:
  assumes "distinct (map sodar_uuid (libraries fc))" and "a \<in> set (libraries fc)"
  shows "\<exists>r lanes. get_sample_sheet_errors fmt fc = Inr r
     \<and> set lanes = {l. \<exists>b \<in> set (libraries fc). barcode_collide a b l}
     \<and> set (errors_of r (sodar_uuid a) ''barcode'' @ errors_of r (sodar_uuid a) ''barcode2'')
         = (if lanes = [] then {} else {barcode_msg fmt a lanes})"
proof -
  from sheet_total obtain r where r: "get_sample_sheet_errors fmt fc = Inr r" by blast
  let ?lanes = "get_list (barcode_bad_lanes fmt fc) (sodar_uuid a)"
  have "set ?lanes = {l. \<exists>b \<in> set (libraries fc). barcode_collide a b l}"
    using barcode_core(2) [OF assms] by (simp add: barcode_clash_lanes_def)
  moreover have "set (errors_of r (sodar_uuid a) ''barcode'' @ errors_of r (sodar_uuid a) ''barcode2'')
         = (if ?lanes = [] then {} else {barcode_msg fmt a ?lanes})"
    unfolding sheet_fields [OF assms r] barcode_keys_mem by auto
  ultimately show ?thesis using r by blast
qed

theorem barcode_collision_iff_witness:
  "distinct (map sodar_uuid (libraries same_name_cell))
   \<and> lib 11 ''Lib1'' (Some ''AAAA'') (Some ''CCCC'') [3] \<in> set (libraries same_name_cell)
   \<and> (\<exists>r lanes. get_sample_sheet_errors pretty_range same_name_cell = Inr r
     \<and> set lanes = {l. \<exists>b \<in> set (libraries same_name_cell).
          barcode_collide (lib 11 ''Lib1'' (Some ''AAAA'') (Some ''CCCC'') [3]) b l}
     \<and> set (errors_of r 11 ''barcode'' @ errors_of r 11 ''barcode2'')
         = (if lanes = [] then {}
            else {barcode_msg pretty_range (lib 11 ''Lib1'' (Some ''AAAA'') (Some ''CCCC'') [3]) lanes}))
   \<and> get_sample_sheet_errors pretty_range same_name_cell =
       Inr [(11, [(''name'', [''Library name Lib1 is not unique for lane 3''])]),
            (12, [(''name'', [''Library name Lib1 is not unique for lane 3''])])]"
proof -
  have d: "distinct (map sodar_uuid (libraries same_name_cell))"
    by (simp add: same_name_cell_def cell_def lib_def)
  have m: "lib 11 ''Lib1'' (Some ''AAAA'') (Some ''CCCC'') [3] \<in> set (libraries same_name_cell)"
    by (simp add: same_name_cell_def cell_def)
  have v: "get_sample_sheet_errors pretty_range same_name_cell =
       Inr [(11, [(''name'', [''Library name Lib1 is not unique for lane 3''])]),
            (12, [(''name'', [''Library name Lib1 is not unique for lane 3''])])]"
    by code_simp
  have u: "sodar_uuid (lib 11 ''Lib1'' (Some ''AAAA'') (Some ''CCCC'') [3]) = 11"
    by (simp add: lib_def)
  from barcode_collision_iff [OF d m, of pretty_range] d m v show ?thesis
    unfolding u by blast
qed

text \<open>
  The claim as stated fails: on lane 3, one library has no barcode sequence and the other
  has empty ones; none of the four is set, and the checker reports no collision.
\<close>

theorem unset_groups_counterexample:
  "get_barcode_seq (lib 11 ''LibA'' None None [3]) = None
   \<and> get_barcode_seq2 (lib 11 ''LibA'' None None [3]) = None
   \<and> get_barcode_seq (lib 12 ''LibB'' (Some []) (Some []) [3]) = Some []
   \<and> get_barcode_seq2 (lib 12 ''LibB'' (Some []) (Some []) [3]) = Some []
   \<and> get_sample_sheet_errors pretty_range unset_cell = Inr []"
  by code_simp





section \<open>A library without lanes\<close>

text \<open>
  C9. In a flow cell whose libraries have distinct UUIDs, with a library whose list of
  lanes is empty: the checker returns a report; the library is in no group of
  \<open>by_name\<close>, \<open>by_barcode\<close> or \<open>by_barcode2\<close>; it has no error under \<open>lane\<close>,
  \<open>barcode\<close> or \<open>barcode2\<close>, and under \<open>name\<close> at most the message about the
  characters of its name, never one about uniqueness.
\<close>

theorem no_lanes_no_errors:
  assumes "distinct (map sodar_uuid (libraries fc))" and "a \<in> set (libraries fc)"
    and "lane_numbers a = []"
  shows "\<exists>r. get_sample_sheet_errors fmt fc = Inr r
     \<and> errors_of r (sodar_uuid a) ''lane'' = []
     \<and> errors_of r (sodar_uuid a) ''name'' = (if re_match_name (name a) then [] else [name_chars_msg])
     \<and> errors_of r (sodar_uuid a) ''barcode'' = []
     \<and> errors_of r (sodar_uuid a) ''barcode2'' = []
     \<and> (\<forall>item \<in> set (by_name (gather_all fmt fc)). a \<notin> set (snd item))
     \<and> (\<forall>item \<in> set (by_barcode (gather_all fmt fc)). sodar_uuid a \<notin> fst ` set (snd item))
     \<and> (\<forall>item \<in> set (by_barcode2 (gather_all fmt fc)). sodar_uuid a \<notin> fst ` set (snd item))"
proof -
  from sheet_total obtain r where r: "get_sample_sheet_errors fmt fc = Inr r" by blast
  have n: "get_list (name_bad_lanes fmt fc) (sodar_uuid a) = []"
    using name_core(2) [OF assms(1,2), of fmt] assms(3)
    by (simp add: name_clash_lanes_def name_collide_def)
  have b: "get_list (barcode_bad_lanes fmt fc) (sodar_uuid a) = []"
    using barcode_core(2) [OF assms(1,2), of fmt] assms(3)
    by (simp add: barcode_clash_lanes_def barcode_collide_def)
  have l: "bad_lanes_of (num_lanes fc) a = []"
    using assms(3) by (simp add: bad_lanes_of_def)
  have e: "errors_of r (sodar_uuid a) ''lane'' = []"
    "errors_of r (sodar_uuid a) ''name'' = (if re_match_name (name a) then [] else [name_chars_msg])"
    "errors_of r (sodar_uuid a) ''barcode'' = []"
    "errors_of r (sodar_uuid a) ''barcode2'' = []"
    unfolding sheet_fields [OF assms(1,2) r] n b l by simp_all
  have g1: "\<forall>item \<in> set (by_name (gather_all fmt fc)). a \<notin> set (snd item)"
  proof
    fix item assume "item \<in> set (by_name (gather_all fmt fc))"
    then have "a \<in> set (snd item) \<Longrightarrow> fst (fst item) \<in> set (lane_numbers a)"
      using by_name_item_mem [of "fst item" "snd item" fmt fc a] by simp
    with assms(3) show "a \<notin> set (snd item)" by auto
  qed
  have g2: "\<forall>item \<in> set (by_barcode (gather_all fmt fc)). sodar_uuid a \<notin> fst ` set (snd item)"
  proof (intro ballI notI)
    fix item assume i: "item \<in> set (by_barcode (gather_all fmt fc))"
      and "sodar_uuid a \<in> fst ` set (snd item)"
    then obtain entry where en: "entry \<in> set (snd item)" "fst entry = sodar_uuid a" by auto
    from by_barcode_item [OF i en(1)] en(2) uuid_inj [OF assms(1,2)] have
      "snd entry = a" "fst (fst item) \<in> set (lane_numbers (snd entry))" by auto
    with assms(3) show False by simp
  qed
  have g3: "\<forall>item \<in> set (by_barcode2 (gather_all fmt fc)). sodar_uuid a \<notin> fst ` set (snd item)"
  proof (intro ballI notI)
    fix item assume i: "item \<in> set (by_barcode2 (gather_all fmt fc))"
      and "sodar_uuid a \<in> fst ` set (snd item)"
    then obtain entry where en: "entry \<in> set (snd item)" "fst entry = sodar_uuid a" by auto
    from by_barcode2_item [OF i en(1)] en(2) uuid_inj [OF assms(1,2)] have
      "snd entry = a" "fst (fst item) \<in> set (lane_numbers (snd entry))" by auto
    with assms(3) show False by simp
  qed
  from r e g1 g2 g3 show ?thesis by blast
qed

theorem no_lanes_no_errors_witness:
  "distinct (map sodar_uuid (libraries no_lane_cell))
   \<and> lib 11 ''L1'' (Some ''ACGT'') None [] \<in> set (libraries no_lane_cell)
   \<and> lane_numbers (lib 11 ''L1'' (Some ''ACGT'') None []) = []
   \<and> (\<exists>r. get_sample_sheet_errors pretty_range no_lane_cell = Inr r
        \<and> errors_of r 11 ''lane'' = [] \<and> errors_of r 11 ''name'' = []
        \<and> errors_of r 11 ''barcode'' = [] \<and> errors_of r 11 ''barcode2'' = [])
   \<and> get_sample_sheet_errors pretty_range no_lane_cell = Inr []"
proof -
  let ?a = "lib 11 ''L1'' (Some ''ACGT'') None []"
  have d: "distinct (map sodar_uuid (libraries no_lane_cell))"
    by (simp add: no_lane_cell_def cell_def lib_def)
  have m: "?a \<in> set (libraries no_lane_cell)"
    by (simp add: no_lane_cell_def cell_def)
  have l: "lane_numbers ?a = []" by (simp add: lib_def)
  have v: "get_sample_sheet_errors pretty_range no_lane_cell = Inr []"
    by code_simp
  have t: "re_match_name (name ?a)" "sodar_uuid ?a = 11"
    by (simp_all add: lib_def re_match_name_def name_char_def)
  from no_lanes_no_errors [OF d m l, of pretty_range] have
    "\<exists>r. get_sample_sheet_errors pretty_range no_lane_cell = Inr r
        \<and> errors_of r 11 ''lane'' = [] \<and> errors_of r 11 ''name'' = []
        \<and> errors_of r 11 ''barcode'' = [] \<and> errors_of r 11 ''barcode2'' = []"
    using t by auto
  with d m l v show ?thesis by blast
qed

section \<open>Barcode resolution\<close>

lemma resolve_library_simps [simp]:
  "sodar_uuid (resolve_library l) = sodar_uuid l"
  "name (resolve_library l) = name l"
  "lane_numbers (resolve_library l) = lane_numbers l"
  "get_barcode_seq (resolve_library l) = get_barcode_seq l"
  "get_barcode_seq2 (resolve_library l) = get_barcode_seq2 l"
  by (simp_all add: resolve_library_def get_barcode_seq_def get_barcode_seq2_def)

lemma resolve_library_msgs [simp]:
  "name_msg fmt (resolve_library l) lanes = name_msg fmt l lanes"
  "barcode_msg fmt (resolve_library l) lanes = barcode_msg fmt l lanes"
  "barcode_keys (resolve_library l) = barcode_keys l"
  by (simp_all add: name_msg_def barcode_msg_def barcode_keys_def)


lemma map_values_simps [simp]:
  "map_values f [] = []"
  "map_values f (p # d) = (fst p, f (snd p)) # map_values f d"
  "map_values f (d @ e) = map_values f d @ map_values f e"
  "map fst (map_values f d) = map fst d"
  by (simp_all add: map_values_def)


































section \<open>Repeated calls\<close>










end
